theory Spec2Isabelle
  imports Complex_Main
begin

section \<open>Floating-point values\<close>

text \<open>
  The program computes with IEEE 754 doubles (Python \<^verbatim>\<open>float\<close>, numpy \<^verbatim>\<open>float64\<close>).
  A value is a finite number, one of the two infinities, or not-a-number. Finite values are
  exact reals here: rounding, overflow of finite results and the sign of zero are abstracted.
  The special values follow IEEE 754 as numpy implements it: a numpy division by zero gives an
  infinity or NaN (with a warning, no exception), NaN propagates through arithmetic, and every
  ordered comparison with NaN is false.
\<close>

datatype fl = Fin real | PInf | NInf | NaN

fun is_nan :: "fl \<Rightarrow> bool" where
  "is_nan NaN = True"
| "is_nan _ = False"

fun is_finite :: "fl \<Rightarrow> bool" where
  "is_finite (Fin _) = True"
| "is_finite _ = False"

fun fneg :: "fl \<Rightarrow> fl" where
  "fneg (Fin a) = Fin (- a)"
| "fneg PInf = NInf"
| "fneg NInf = PInf"
| "fneg NaN = NaN"

fun fadd :: "fl \<Rightarrow> fl \<Rightarrow> fl" where
  "fadd (Fin a) (Fin b) = Fin (a + b)"
| "fadd NaN _ = NaN"
| "fadd _ NaN = NaN"
| "fadd PInf NInf = NaN"
| "fadd NInf PInf = NaN"
| "fadd PInf _ = PInf"
| "fadd NInf _ = NInf"
| "fadd _ PInf = PInf"
| "fadd _ NInf = NInf"

definition fsub :: "fl \<Rightarrow> fl \<Rightarrow> fl" where
  "fsub a b = fadd a (fneg b)"

text \<open>The sign of a value that is not NaN: \<open>-1\<close>, \<open>0\<close> or \<open>1\<close>.\<close>

fun fsgn :: "fl \<Rightarrow> int" where
  "fsgn (Fin a) = (if a < 0 then -1 else if a = 0 then 0 else 1)"
| "fsgn PInf = 1"
| "fsgn NInf = -1"
| "fsgn NaN = 0"

definition inf_of_sign :: "int \<Rightarrow> fl" where
  "inf_of_sign k = (if k = 0 then NaN else if 0 < k then PInf else NInf)"

fun fmul :: "fl \<Rightarrow> fl \<Rightarrow> fl" where
  "fmul (Fin a) (Fin b) = Fin (a * b)"
| "fmul NaN _ = NaN"
| "fmul _ NaN = NaN"
| "fmul a b = inf_of_sign (fsgn a * fsgn b)"

fun fdiv :: "fl \<Rightarrow> fl \<Rightarrow> fl" where
  "fdiv (Fin a) (Fin b) = (if b = 0 then inf_of_sign (fsgn (Fin a)) else Fin (a / b))"
| "fdiv NaN _ = NaN"
| "fdiv _ NaN = NaN"
| "fdiv (Fin a) _ = Fin 0"
| "fdiv a (Fin b) = (if b < 0 then fneg a else a)"
| "fdiv _ _ = NaN"

fun fabs :: "fl \<Rightarrow> fl" where
  "fabs (Fin a) = Fin \<bar>a\<bar>"
| "fabs NaN = NaN"
| "fabs _ = PInf"

fun fsqrt :: "fl \<Rightarrow> fl" where
  "fsqrt (Fin a) = (if a < 0 then NaN else Fin (sqrt a))"
| "fsqrt PInf = PInf"
| "fsqrt _ = NaN"

text \<open>\<open>fge a b\<close> is the comparison \<^verbatim>\<open>a >= b\<close>, \<open>flt a b\<close> is \<^verbatim>\<open>a < b\<close>.\<close>

fun fge :: "fl \<Rightarrow> fl \<Rightarrow> bool" where
  "fge NaN _ = False"
| "fge _ NaN = False"
| "fge PInf _ = True"
| "fge _ NInf = True"
| "fge NInf _ = False"
| "fge _ PInf = False"
| "fge (Fin a) (Fin b) = (b \<le> a)"

fun flt :: "fl \<Rightarrow> fl \<Rightarrow> bool" where
  "flt NaN _ = False"
| "flt _ NaN = False"
| "flt PInf _ = False"
| "flt _ NInf = False"
| "flt NInf _ = True"
| "flt _ PInf = True"
| "flt (Fin a) (Fin b) = (a < b)"

text \<open>
  numpy's two maxima of a pair: \<^verbatim>\<open>np.maximum\<close> propagates NaN (it underlies \<^verbatim>\<open>np.max\<close>),
  \<^verbatim>\<open>np.fmax\<close> ignores a NaN operand (it underlies \<^verbatim>\<open>np.nanmax\<close>).
\<close>

definition np_maximum :: "fl \<Rightarrow> fl \<Rightarrow> fl" where
  "np_maximum a b = (if is_nan a \<or> is_nan b then NaN else if fge a b then a else b)"

definition np_fmax :: "fl \<Rightarrow> fl \<Rightarrow> fl" where
  "np_fmax a b = (if is_nan a then b else if is_nan b then a else if fge a b then a else b)"

section \<open>Errors and the structure\<close>

datatype py_error =
    AssertionError string
  | ValueError
  | IndexError
  | KeyError
  | ZeroDivisionError
  | TypeError
  | CollaboratorError

text \<open>A row of an \<open>N \<times> 3\<close> array: the three Cartesian components of one atom.\<close>

type_synonym vec3 = "fl \<times> fl \<times> fl"

definition comps :: "vec3 \<Rightarrow> fl list" where
  "comps v = (case v of (x, y, z) \<Rightarrow> [x, y, z])"

definition vmap :: "(fl \<Rightarrow> fl) \<Rightarrow> vec3 \<Rightarrow> vec3" where
  "vmap f v = (case v of (x, y, z) \<Rightarrow> (f x, f y, f z))"

definition vzip :: "(fl \<Rightarrow> fl \<Rightarrow> fl) \<Rightarrow> vec3 \<Rightarrow> vec3 \<Rightarrow> vec3" where
  "vzip f v w = (case v of (x, y, z) \<Rightarrow> (case w of (a, b, c) \<Rightarrow> (f x a, f y b, f z c)))"

text \<open>
  The \<^verbatim>\<open>Structure\<close> class (module \<^verbatim>\<open>struc\<close>) holds the atoms. Its fields are the attributes
  the engine reads and writes; \<^verbatim>\<open>flare/md.py\<close> names the species attribute
  \<^verbatim>\<open>species_labels\<close>. \<open>nat_atoms\<close> is the attribute \<^verbatim>\<open>nat\<close>.
\<close>

record struc =
  positions :: "vec3 list"
  prev_positions :: "vec3 list"
  species :: "string list"
  mass_dict :: "string \<rightharpoonup> fl"
  forces :: "vec3 list"
  stds :: "vec3 list"
  nat_atoms :: nat

section \<open>The uncertainty policy\<close>

text \<open>
  \<^verbatim>\<open>np.max(std)\<close> of one row, and \<^verbatim>\<open>np.nanmax(stds)\<close> of the whole array, which raises
  \<^verbatim>\<open>ValueError\<close> on an array without entries.
\<close>

definition np_max :: "vec3 \<Rightarrow> fl" where
  "np_max v = (case v of (x, y, z) \<Rightarrow> np_maximum (np_maximum x y) z)"

definition np_nanmax :: "vec3 list \<Rightarrow> py_error + fl" where
  "np_nanmax rows =
     (case concat (map comps rows) of
        [] \<Rightarrow> Inl ValueError
      | e # es \<Rightarrow> Inr (foldl np_fmax e es))"

text \<open>The literal \<^verbatim>\<open>.1\<close> of \<^verbatim>\<open>is_std_in_bound\<close>.\<close>

definition threshold :: fl where
  "threshold = Fin (1 / 10)"

text \<open>
  The loop \<^verbatim>\<open>for i, std in enumerate(self.structure.stds)\<close> that collects the problem
  atoms, started at index \<open>i\<close>.
\<close>

fun problem_atoms_from :: "nat \<Rightarrow> vec3 list \<Rightarrow> nat list" where
  "problem_atoms_from i [] = []"
| "problem_atoms_from i (std # rest) =
     (if fge (np_max std) threshold then i # problem_atoms_from (Suc i) rest
      else problem_atoms_from (Suc i) rest)"

definition is_std_in_bound :: "struc \<Rightarrow> py_error + (bool \<times> nat list)" where
  "is_std_in_bound s =
     (case np_nanmax (stds s) of
        Inl e \<Rightarrow> Inl e
      | Inr m \<Rightarrow>
          if fge m threshold then Inr (False, problem_atoms_from 0 (stds s))
          else Inr (True, []))"

section \<open>The integrator\<close>

text \<open>
  Indexing a list or an array raises \<^verbatim>\<open>IndexError\<close> out of range, and a dictionary lookup
  raises \<^verbatim>\<open>KeyError\<close> on a missing key. All indices here are loop counters, never negative.
\<close>

text \<open>Sequencing of fallible steps: the first exception ends the computation.\<close>

definition ebind :: "py_error + 'a \<Rightarrow> ('a \<Rightarrow> py_error + 'b) \<Rightarrow> py_error + 'b" where
  "ebind m f = (case m of Inl e \<Rightarrow> Inl e | Inr x \<Rightarrow> f x)"

definition get :: "'a list \<Rightarrow> nat \<Rightarrow> py_error + 'a" where
  "get xs i = (if i < length xs then Inr (xs ! i) else Inl IndexError)"

definition lookup :: "('k \<rightharpoonup> 'v) \<Rightarrow> 'k \<Rightarrow> py_error + 'v" where
  "lookup m k = (case m k of None \<Rightarrow> Inl KeyError | Some v \<Rightarrow> Inr v)"

text \<open>
  The right-hand side \<^verbatim>\<open>2 * pos - pre_pos + dtdt * forces / mass\<close>, evaluated componentwise
  in Python's order: \<^verbatim>\<open>((2 * pos) - pre_pos) + ((dtdt * forces) / mass)\<close>.
\<close>

definition verlet :: "fl \<Rightarrow> fl \<Rightarrow> vec3 \<Rightarrow> vec3 \<Rightarrow> vec3 \<Rightarrow> vec3" where
  "verlet dtdt mass pos pre_pos frc =
     vzip fadd (vzip fsub (vmap (fmul (Fin 2)) pos) pre_pos)
               (vmap (\<lambda>f. fdiv (fmul dtdt f) mass) frc)"

text \<open>
  \<^verbatim>\<open>OTF.update_positions\<close>: the loop \<^verbatim>\<open>for i, pre_pos in enumerate(prev_positions)\<close>, started
  at index \<open>i\<close> with the rows still to visit. The structure is updated in place, one atom
  at a time; an exception leaves the loop.
\<close>

fun update_positions_from :: "fl \<Rightarrow> nat \<Rightarrow> vec3 list \<Rightarrow> struc \<Rightarrow> py_error + struc" where
  "update_positions_from dtdt i [] s = Inr s"
| "update_positions_from dtdt i (pre_pos # rest) s =
     (ebind (get (positions s) i) (\<lambda>temp_pos.
      ebind (get (species s) i) (\<lambda>sp.
      ebind (lookup (mass_dict s) sp) (\<lambda>mass.
      ebind (get (positions s) i) (\<lambda>pos.
      ebind (get (forces s) i) (\<lambda>frc.
        update_positions_from dtdt (Suc i) rest
          (s\<lparr>positions := (positions s)[i := verlet dtdt mass pos pre_pos frc],
             prev_positions := (prev_positions s)[i := temp_pos]\<rparr>)))))))"

definition update_positions :: "fl \<Rightarrow> struc \<Rightarrow> py_error + struc" where
  "update_positions dt s = update_positions_from (fmul dt dt) 0 (prev_positions s) s"

text \<open>
  \<^verbatim>\<open>update_positions\<close> of \<^verbatim>\<open>flare/md.py\<close>: the same loop, writing into a fresh array
  \<^verbatim>\<open>new_pos = np.zeros((noa, 3))\<close> and leaving the structure alone.
\<close>

fun md_update_positions_from ::
  "fl \<Rightarrow> nat \<Rightarrow> vec3 list \<Rightarrow> struc \<Rightarrow> vec3 list \<Rightarrow> py_error + vec3 list" where
  "md_update_positions_from dtdt i [] s new_pos = Inr new_pos"
| "md_update_positions_from dtdt i (pre_pos # rest) s new_pos =
     (ebind (get (species s) i) (\<lambda>sp.
      ebind (lookup (mass_dict s) sp) (\<lambda>mass.
      ebind (get (positions s) i) (\<lambda>pos.
      ebind (get (forces s) i) (\<lambda>frc.
        if i < length new_pos
        then md_update_positions_from dtdt (Suc i) rest s
               (new_pos[i := verlet dtdt mass pos pre_pos frc])
        else Inl IndexError)))))"

definition md_update_positions :: "fl \<Rightarrow> nat \<Rightarrow> struc \<Rightarrow> py_error + vec3 list" where
  "md_update_positions dt noa s =
     md_update_positions_from (fmul dt dt) 0 (prev_positions s) s
       (replicate noa (Fin 0, Fin 0, Fin 0))"

section \<open>Kinetic energy and temperature\<close>

text \<open>
  numpy broadcasting of a binary operation over two arrays of shapes \<open>(n, 3)\<close> and
  \<open>(m, 3)\<close>: rows are paired when \<open>n = m\<close>, a single row is repeated, and any other pair
  of shapes raises \<^verbatim>\<open>ValueError\<close>.
\<close>

definition np_broadcast :: "(vec3 \<Rightarrow> vec3 \<Rightarrow> vec3) \<Rightarrow> vec3 list \<Rightarrow> vec3 list \<Rightarrow> py_error + vec3 list" where
  "np_broadcast f a b =
     (if length a = length b then Inr (map (\<lambda>(x, y). f x y) (zip a b))
      else if length a = 1 then Inr (map (f (hd a)) b)
      else if length b = 1 then Inr (map (\<lambda>x. f x (hd b)) a)
      else Inl ValueError)"

text \<open>
  One term \<^verbatim>\<open>0.5 * mass * v * v\<close>, and the inner loop over \<^verbatim>\<open>j in range(3)\<close> that adds the
  three terms of one atom to \<^verbatim>\<open>KE\<close>.
\<close>

definition ke_term :: "fl \<Rightarrow> fl \<Rightarrow> fl" where
  "ke_term mass v = fmul (fmul (fmul (Fin (1 / 2)) mass) v) v"

definition ke_atom :: "fl \<Rightarrow> vec3 \<Rightarrow> fl \<Rightarrow> fl" where
  "ke_atom mass vel KE = foldl (\<lambda>acc v. fadd acc (ke_term mass v)) KE (comps vel)"

text \<open>The outer loop \<^verbatim>\<open>for i in range(len(structure.positions))\<close> over the indices given.\<close>

fun ke_loop :: "struc \<Rightarrow> vec3 list \<Rightarrow> nat list \<Rightarrow> fl \<Rightarrow> py_error + fl" where
  "ke_loop s velocities [] KE = Inr KE"
| "ke_loop s velocities (i # rest) KE =
     (ebind (get (species s) i) (\<lambda>sp.
      ebind (lookup (mass_dict s) sp) (\<lambda>mass.
      ebind (get velocities i) (\<lambda>vel.
        ke_loop s velocities rest (ke_atom mass vel KE)))))"

definition kb :: fl where
  "kb = Fin (861733034 / 10 ^ 13)"

text \<open>
  \<^verbatim>\<open>calculate_temperature\<close>. \<^verbatim>\<open>KE\<close> starts as the Python integer \<open>0\<close> and becomes a numpy
  float with the first term added. The final division is numpy's when \<^verbatim>\<open>KE\<close> is a numpy float
  (no exception on a zero divisor) and Python's when the loop never ran, where a zero divisor
  raises \<^verbatim>\<open>ZeroDivisionError\<close>.
\<close>

definition calculate_temperature ::
  "vec3 list \<Rightarrow> struc \<Rightarrow> fl \<Rightarrow> nat \<Rightarrow> py_error + (fl \<times> fl \<times> vec3 list)" where
  "calculate_temperature new_pos s dt noa =
     (ebind (np_broadcast (vzip fsub) new_pos (prev_positions s)) (\<lambda>d.
      let velocities = map (vmap (\<lambda>x. fdiv x (fmul (Fin 2) dt))) d in
      ebind (ke_loop s velocities [0 ..< length (positions s)] (Fin 0)) (\<lambda>KE.
      let denom = fmul (Fin (of_int (3 * int noa - 3))) kb in
        if positions s = [] \<and> denom = Fin 0 then Inl ZeroDivisionError
        else Inr (KE, fdiv (fmul (Fin 2) KE) denom, velocities))))"

section \<open>The oracle input template\<close>

text \<open>
  What a template parser returns: positions, species, cell and masses. A Python function that
  ends without a \<^verbatim>\<open>return\<close> statement returns \<^verbatim>\<open>None\<close>, which is \<open>None\<close> here.
\<close>

type_synonym parsed = "vec3 list \<times> string list \<times> vec3 list \<times> (string \<rightharpoonup> fl)"

text \<open>
  \<^verbatim>\<open>parse_dft_input\<close> of \<^verbatim>\<open>pyscf_util.py\<close>, on the lines of the file. Its loop over the lines
  only resets \<^verbatim>\<open>cell_index\<close>; the three assertions follow in the order of the source.
\<close>

fun scan_lines ::
  "nat \<Rightarrow> string list \<Rightarrow> nat option \<times> nat option \<times> nat option \<Rightarrow>
     nat option \<times> nat option \<times> nat option" where
  "scan_lines i [] found = found"
| "scan_lines i (line # rest) (cell_index, positions_index, nat_found) =
     scan_lines (Suc i) rest (None, positions_index, nat_found)"

definition found_checks :: "nat option \<Rightarrow> nat option \<Rightarrow> nat option \<Rightarrow> py_error + unit" where
  "found_checks cell_index positions_index nat_found =
     (if cell_index = None then Inl (AssertionError ''Failed to find cell in input file'')
      else if positions_index = None then Inl (AssertionError ''Failed to find positions in input'')
      else if nat_found = None then Inl (AssertionError ''Failed to find number of atoms in input'')
      else Inr ())"

definition parse_dft_input :: "string list \<Rightarrow> py_error + parsed option" where
  "parse_dft_input lines =
     (case scan_lines 0 lines (None, None, None) of
        (cell_index, positions_index, nat_found) \<Rightarrow>
          ebind (found_checks cell_index positions_index nat_found) (\<lambda>_. Inr None))"

section \<open>The engine\<close>

text \<open>
  The output file \<^verbatim>\<open>otf_run.out\<close> as the list of the records appended to it. A frame holds
  the step counter and one row per atom (species, position, force, standard deviation); the
  formatting of numbers is not modelled.
\<close>

datatype log_entry =
    Header
  | CallingQE
  | QEDone
  | QEResults "(string \<times> vec3 \<times> vec3) list"
  | UpdatingDB
  | NewHyperparameters
  | Frame int "(string \<times> vec3 \<times> vec3 \<times> vec3) list"

text \<open>
  The modules \<^verbatim>\<open>gp\<close>, \<^verbatim>\<open>env\<close>, \<^verbatim>\<open>punchout\<close>, \<^verbatim>\<open>qe_util\<close> and \<^verbatim>\<open>struc\<close> and numpy's random
  generator are collaborators of the engine, taken as parameters. \<open>gp_predict g s n i\<close> is
  \<^verbatim>\<open>gp.predict(ChemicalEnvironment(s, n), i)\<close>; \<open>random_draw k n\<close> is the value of the \<open>k\<close>-th
  draw of the generator among \<open>n\<close> equally likely outcomes.
\<close>

record 'gp collab =
  new_gp :: "string \<Rightarrow> 'gp"
  gp_predict :: "'gp \<Rightarrow> struc \<Rightarrow> nat \<Rightarrow> nat \<Rightarrow> py_error + (fl \<times> fl)"
  gp_update_db :: "'gp \<Rightarrow> struc \<Rightarrow> vec3 list \<Rightarrow> py_error + 'gp"
  gp_train :: "'gp \<Rightarrow> py_error + 'gp"
  run_espresso :: "string \<Rightarrow> struc \<Rightarrow> py_error + vec3 list"
  punchout :: "struc \<Rightarrow> nat option \<Rightarrow> fl \<Rightarrow> py_error + struc"
  parse_qe_input :: "string \<Rightarrow> py_error + parsed option"
  new_structure ::
    "vec3 list \<Rightarrow> string list \<Rightarrow> vec3 list \<Rightarrow> fl \<Rightarrow> (string \<rightharpoonup> fl) \<Rightarrow> vec3 list option \<Rightarrow>
       py_error + struc"
  random_draw :: "nat \<Rightarrow> nat \<Rightarrow> nat"

text \<open>
  The attributes of an \<^verbatim>\<open>OTF\<close> object. \<open>struct\<close> is \<^verbatim>\<open>self.structure\<close>, \<open>out_file\<close> the contents
  of the output file and \<open>rng\<close> the number of random draws made so far.
\<close>

record 'gp otf =
  qe_input :: string
  dt :: fl
  Nsteps :: int
  gp :: 'gp
  cutoff :: fl
  punchout_d :: "fl option"
  struct :: struc
  curr_step :: int
  train_structure :: "struc option"
  out_file :: "log_entry list"
  rng :: nat

text \<open>
  \<^verbatim>\<open>OTF.__init__\<close>. Unpacking the parser's result into four names raises \<^verbatim>\<open>TypeError\<close> when
  the result is \<^verbatim>\<open>None\<close>. The output file is created last.
\<close>

definition OTF_init ::
  "'gp collab \<Rightarrow> string \<Rightarrow> fl \<Rightarrow> int \<Rightarrow> string \<Rightarrow> fl \<Rightarrow> fl option \<Rightarrow> vec3 list option \<Rightarrow>
     py_error + 'gp otf" where
  "OTF_init env qe_input' dt' number_of_steps kernel' cutoff' punchout_d' prev_pos_init =
     ebind (parse_qe_input env qe_input') (\<lambda>r.
       case r of
         None \<Rightarrow> Inl TypeError
       | Some (positions', species', cell, masses) \<Rightarrow>
           ebind (new_structure env cell species' positions' cutoff' masses prev_pos_init) (\<lambda>s.
             Inr \<lparr>qe_input = qe_input', dt = dt', Nsteps = number_of_steps,
                  gp = new_gp env kernel', cutoff = cutoff', punchout_d = punchout_d',
                  struct = s, curr_step = 0, train_structure = None,
                  out_file = [Header], rng = 0\<rparr>))"

text \<open>A loop that gathers one value per index and stops at the first exception.\<close>

fun collect :: "(nat \<Rightarrow> py_error + 'a) \<Rightarrow> nat list \<Rightarrow> py_error + 'a list" where
  "collect f [] = Inr []"
| "collect f (i # rest) = ebind (f i) (\<lambda>x. ebind (collect f rest) (\<lambda>xs. Inr (x # xs)))"

definition write_to_output :: "log_entry \<Rightarrow> 'gp otf \<Rightarrow> 'gp otf" where
  "write_to_output entry otf = otf\<lparr>out_file := out_file otf @ [entry]\<rparr>"

definition write_config :: "'gp otf \<Rightarrow> py_error + 'gp otf" where
  "write_config otf =
     (let s = struct otf in
      ebind (collect (\<lambda>i.
               ebind (get (species s) i) (\<lambda>sp.
               ebind (get (positions s) i) (\<lambda>pos.
               ebind (get (forces s) i) (\<lambda>frc.
               ebind (get (stds s) i) (\<lambda>std. Inr (sp, pos, frc, std))))))
             [0 ..< length (positions s)])
        (\<lambda>rows. Inr (write_to_output (Frame (curr_step otf) rows) otf)))"

text \<open>
  \<^verbatim>\<open>predict_on_structure\<close>: for atom \<open>n\<close> the environment is built once, then the three
  components are predicted and stored one after the other.
\<close>

definition set_comp :: "vec3 \<Rightarrow> nat \<Rightarrow> fl \<Rightarrow> vec3" where
  "set_comp v i x =
     (case v of (a, b, c) \<Rightarrow> if i = 0 then (x, b, c) else if i = 1 then (a, x, c) else (a, b, x))"

fun predict_comps ::
  "'gp collab \<Rightarrow> 'gp \<Rightarrow> struc \<Rightarrow> nat \<Rightarrow> nat list \<Rightarrow> struc \<Rightarrow> py_error + struc" where
  "predict_comps env g chemenv n [] s = Inr s"
| "predict_comps env g chemenv n (i # rest) s =
     ebind (gp_predict env g chemenv n (i + 1)) (\<lambda>(force, var).
     ebind (get (forces s) n) (\<lambda>frow.
     ebind (get (stds s) n) (\<lambda>srow.
       predict_comps env g chemenv n rest
         (s\<lparr>forces := (forces s)[n := set_comp frow i force],
            stds := (stds s)[n := set_comp srow i (fsqrt (fabs var))]\<rparr>))))"

fun predict_atoms :: "'gp collab \<Rightarrow> 'gp \<Rightarrow> nat list \<Rightarrow> struc \<Rightarrow> py_error + struc" where
  "predict_atoms env g [] s = Inr s"
| "predict_atoms env g (n # rest) s =
     ebind (predict_comps env g s n [0, 1, 2] s) (\<lambda>s'. predict_atoms env g rest s')"

definition predict_on_structure :: "'gp collab \<Rightarrow> 'gp otf \<Rightarrow> py_error + 'gp otf" where
  "predict_on_structure env otf =
     ebind (predict_atoms env (gp otf) [0 ..< nat_atoms (struct otf)] (struct otf))
       (\<lambda>s. Inr (otf\<lparr>struct := s\<rparr>))"

text \<open>
  A random index below \<open>n\<close>: \<^verbatim>\<open>np.random.randint(0, n)\<close>, and the position picked by
  \<^verbatim>\<open>np.random.choice\<close> in a sequence of length \<open>n\<close>. Both raise \<^verbatim>\<open>ValueError\<close> for \<open>n = 0\<close>.
\<close>

definition draw :: "'gp collab \<Rightarrow> nat \<Rightarrow> 'gp otf \<Rightarrow> py_error + (nat \<times> 'gp otf)" where
  "draw env n otf =
     (if n = 0 then Inl ValueError
      else Inr (random_draw env (rng otf) n mod n, otf\<lparr>rng := Suc (rng otf)\<rparr>))"

text \<open>
  \<^verbatim>\<open>run_and_train\<close>. Without punch-out the training structure is the structure itself; with
  it, the target of the first call is drawn at random among all atoms.
\<close>

definition run_and_train :: "'gp collab \<Rightarrow> nat option \<Rightarrow> 'gp otf \<Rightarrow> py_error + 'gp otf" where
  "run_and_train env punchout_target otf0 =
     (let otf = write_to_output CallingQE otf0 in
      ebind (case punchout_d otf of
               None \<Rightarrow> Inr (struct otf, otf)
             | Some d \<Rightarrow>
                 ebind (if train_structure otf = None
                        then ebind (draw env (nat_atoms (struct otf)) otf)
                               (\<lambda>(k, otf'). Inr (Some k, otf'))
                        else Inr (punchout_target, otf))
                   (\<lambda>(target, otf'). ebind (punchout env (struct otf') target d)
                      (\<lambda>t. Inr (t, otf'))))
        (\<lambda>(t, otf1).
      let otf2 = otf1\<lparr>train_structure := Some t\<rparr> in
      ebind (run_espresso env (qe_input otf2) t) (\<lambda>frcs.
      let otf3 = write_to_output QEDone otf2 in
      ebind (collect (\<lambda>n.
               ebind (get (species t) n) (\<lambda>sp.
               ebind (get (positions t) n) (\<lambda>pos.
               ebind (get frcs n) (\<lambda>frc. Inr (sp, pos, frc)))))
             [0 ..< nat_atoms t]) (\<lambda>rows.
      let otf4 = write_to_output UpdatingDB (write_to_output (QEResults rows) otf3) in
      ebind (gp_update_db env (gp otf4) t frcs) (\<lambda>g.
      ebind (gp_train env g) (\<lambda>g'.
        Inr (write_to_output NewHyperparameters (otf4\<lparr>gp := g'\<rparr>))))))))"

text \<open>Python's truth value of \<^verbatim>\<open>self.punchout_d\<close>: \<^verbatim>\<open>None\<close> and zero are false.\<close>

definition truthy :: "fl option \<Rightarrow> bool" where
  "truthy d = (case d of None \<Rightarrow> False | Some x \<Rightarrow> x \<noteq> Fin 0)"

text \<open>
  One pass through the body of the main loop of \<^verbatim>\<open>run\<close>: predict, test the uncertainty, then
  either write the frame, query the oracle and retrain, or write the frame, move the atoms and
  count the step.
\<close>

definition loop_body :: "'gp collab \<Rightarrow> 'gp otf \<Rightarrow> py_error + 'gp otf" where
  "loop_body env otf0 =
     ebind (predict_on_structure env otf0) (\<lambda>otf.
     ebind (is_std_in_bound (struct otf)) (\<lambda>(std_in_bound, problem_atoms).
       if \<not> std_in_bound then
         ebind (write_config otf) (\<lambda>otf1.
         ebind (if truthy (punchout_d otf1)
                then ebind (draw env (length problem_atoms) otf1)
                       (\<lambda>(k, otf'). Inr (Some (problem_atoms ! k), otf'))
                else Inr (None, otf1))
           (\<lambda>(target_atom, otf2). run_and_train env target_atom otf2))
       else
         ebind (write_config otf) (\<lambda>otf1.
         ebind (update_positions (dt otf1) (struct otf1)) (\<lambda>s.
           Inr (otf1\<lparr>struct := s, curr_step := curr_step otf1 + 1\<rparr>)))))"

text \<open>
  The main loop. It need not end, so its value is optional: \<open>None\<close> when the loop runs
  forever, \<open>Some (Inl e)\<close> when exception \<open>e\<close> ends it, \<open>Some (Inr otf)\<close> when it completes.
\<close>

partial_function (option) run_loop :: "'gp collab \<Rightarrow> 'gp otf \<Rightarrow> (py_error + 'gp otf) option" where
  "run_loop env otf =
     (if curr_step otf < Nsteps otf
      then (case loop_body env otf of
              Inl e \<Rightarrow> Some (Inl e)
            | Inr otf' \<Rightarrow> run_loop env otf')
      else Some (Inr otf))"

definition run :: "'gp collab \<Rightarrow> 'gp otf \<Rightarrow> (py_error + 'gp otf) option" where
  "run env otf =
     (case run_and_train env None otf of
        Inl e \<Rightarrow> Some (Inl e)
      | Inr otf' \<Rightarrow> run_loop env otf')"

text \<open>The loop body iterated \<open>k\<close> times, whatever the loop test says.\<close>

fun iterate_body :: "nat \<Rightarrow> 'gp collab \<Rightarrow> 'gp otf \<Rightarrow> py_error + 'gp otf" where
  "iterate_body 0 env otf = Inr otf"
| "iterate_body (Suc k) env otf = ebind (loop_body env otf) (iterate_body k env)"

section \<open>Notions used to state the properties\<close>

text \<open>All entries of an \<open>N \<times> 3\<close> array, and what it means to be a maximum of a list.\<close>

definition entries :: "vec3 list \<Rightarrow> fl list" where
  "entries rows = concat (map comps rows)"

definition is_maximum_of :: "fl \<Rightarrow> fl list \<Rightarrow> bool" where
  "is_maximum_of m xs \<longleftrightarrow> m \<in> set xs \<and> (\<forall>x\<in>set xs. fge m x)"

text \<open>The maximum of the three components of a row is at least \<open>t\<close>.\<close>

definition row_max_ge :: "vec3 \<Rightarrow> fl \<Rightarrow> bool" where
  "row_max_ge row t \<longleftrightarrow> (\<exists>r\<in>set (comps row). is_maximum_of r (comps row) \<and> fge r t)"

text \<open>A well-formed structure of two hydrogen atoms, the second with an uncertain force.\<close>

definition atoms_example :: struc where
  "atoms_example =
     \<lparr>positions = [(Fin 0, Fin 0, Fin 0), (Fin 1, Fin 0, Fin 0)],
      prev_positions = [(Fin 0, Fin 0, Fin 0), (Fin 1, Fin 0, Fin 0)],
      species = [''H'', ''H''],
      mass_dict = [''H'' \<mapsto> Fin 1],
      forces = [(Fin 0, Fin 0, Fin 0), (Fin 0, Fin 0, Fin 0)],
      stds = [(Fin 0, Fin 0, Fin 0), (Fin 0, Fin (1 / 5), Fin (1 / 20))],
      nat_atoms = 2\<rparr>"

text \<open>The same atoms with uncertainties that are not numbers.\<close>

definition all_nan_example :: struc where
  "all_nan_example = atoms_example\<lparr>stds := [(NaN, NaN, NaN), (NaN, NaN, NaN)]\<rparr>"

definition some_nan_example :: struc where
  "some_nan_example =
     atoms_example\<lparr>stds := [(NaN, Fin (1 / 2), Fin 0), (Fin (1 / 5), Fin 0, Fin 0)]\<rparr>"

text \<open>
  The invariant of a structure: every per-atom sequence has one entry per atom, and every
  species has a mass.
\<close>

definition wf_struc :: "struc \<Rightarrow> bool" where
  "wf_struc s \<longleftrightarrow>
     length (positions s) = nat_atoms s \<and> length (prev_positions s) = nat_atoms s \<and>
     length (species s) = nat_atoms s \<and> length (forces s) = nat_atoms s \<and>
     length (stds s) = nat_atoms s \<and> (\<forall>sp\<in>set (species s). mass_dict s sp \<noteq> None)"

text \<open>The mass of atom \<open>i\<close> of a well-formed structure.\<close>

definition mass_of :: "struc \<Rightarrow> nat \<Rightarrow> fl" where
  "mass_of s i = (case mass_dict s (species s ! i) of Some m \<Rightarrow> m | None \<Rightarrow> NaN)"

text \<open>A vector of finite numbers, and the zero vector.\<close>

definition finite_vec :: "vec3 \<Rightarrow> bool" where
  "finite_vec v \<longleftrightarrow> list_all is_finite (comps v)"

definition zero_vec :: vec3 where
  "zero_vec = (Fin 0, Fin 0, Fin 0)"

text \<open>The same atoms in motion: the second atom has moved and feels a force.\<close>

definition moving_example :: struc where
  "moving_example =
     atoms_example\<lparr>prev_positions := [(Fin 0, Fin 0, Fin 0), (Fin (1 / 2), Fin 0, Fin 0)],
                    forces := [(Fin 0, Fin 0, Fin 0), (Fin 0, Fin 2, Fin 0)]\<rparr>"

text \<open>The sum of a list of floats, added from left to right starting at zero.\<close>

definition fsum :: "fl list \<Rightarrow> fl" where
  "fsum xs = foldl fadd (Fin 0) xs"

text \<open>A structure of a single atom.\<close>

definition one_atom_example :: struc where
  "one_atom_example =
     \<lparr>positions = [(Fin 1, Fin 0, Fin 0)], prev_positions = [(Fin 0, Fin 0, Fin 0)],
      species = [''H''], mass_dict = [''H'' \<mapsto> Fin 1],
      forces = [(Fin 0, Fin 0, Fin 0)], stds = [(Fin 0, Fin 0, Fin 0)], nat_atoms = 1\<rparr>"

text \<open>
  A template that holds an atom count, a cell block and a positions block, as the lines of
  its file.
\<close>

definition template_example :: "string list" where
  "template_example =
     [''nat = 2'',
      ''CELL_PARAMETERS'', ''10.0 0.0 0.0'', ''0.0 10.0 0.0'', ''0.0 0.0 10.0'',
      ''ATOMIC_POSITIONS'', ''H 0.0 0.0 0.0'', ''H 1.0 0.0 0.0'']"

text \<open>
  Row \<open>n\<close> of the predicted forces and uncertainties satisfies \<open>Q\<close> in each component, and two
  structures that differ at most in the values of their forces and uncertainties.
\<close>

definition row_ok :: "(fl \<Rightarrow> fl \<Rightarrow> bool) \<Rightarrow> struc \<Rightarrow> nat \<Rightarrow> bool" where
  "row_ok Q s n \<longleftrightarrow>
     (\<exists>f0 f1 f2 d0 d1 d2. forces s ! n = (f0, f1, f2) \<and> stds s ! n = (d0, d1, d2) \<and>
        Q f0 d0 \<and> Q f1 d1 \<and> Q f2 d2)"

definition same_atoms :: "struc \<Rightarrow> struc \<Rightarrow> bool" where
  "same_atoms s' s \<longleftrightarrow>
     positions s' = positions s \<and> prev_positions s' = prev_positions s \<and>
     species s' = species s \<and> mass_dict s' = mass_dict s \<and> nat_atoms s' = nat_atoms s \<and>
     length (forces s') = length (forces s) \<and> length (stds s') = length (stds s)"

text \<open>The rows of a frame record of a structure.\<close>

definition frame_rows :: "struc \<Rightarrow> (string \<times> vec3 \<times> vec3 \<times> vec3) list" where
  "frame_rows s =
     map (\<lambda>i. (species s ! i, positions s ! i, forces s ! i, stds s ! i)) [0 ..< length (positions s)]"

text \<open>
  Collaborators that never raise: the oracle returns one force per atom of the structure it
  is given, and punch-out returns a well-formed structure.
\<close>

definition cooperative :: "'gp collab \<Rightarrow> bool" where
  "cooperative env \<longleftrightarrow>
     (\<forall>g s f. \<exists>g'. gp_update_db env g s f = Inr g') \<and>
     (\<forall>g. \<exists>g'. gp_train env g = Inr g') \<and>
     (\<forall>q s. \<exists>f. run_espresso env q s = Inr f \<and> length f = nat_atoms s) \<and>
     (\<forall>s t d. \<exists>p. punchout env s t d = Inr p \<and> wf_struc p)"

text \<open>The five records that one oracle query with retraining appends to the output.\<close>

definition train_records :: "(string \<times> vec3 \<times> vec3) list \<Rightarrow> log_entry list" where
  "train_records rows = [CallingQE, QEDone, QEResults rows, UpdatingDB, NewHyperparameters]"

text \<open>
  A state on which the loop can run: a well-formed structure with at least one atom. A
  surrogate that always reports an uncertainty at or above the threshold, and one that always
  reports zero force and zero variance.
\<close>

definition runs_on :: "'gp otf \<Rightarrow> bool" where
  "runs_on otf \<longleftrightarrow> wf_struc (struct otf) \<and> 0 < nat_atoms (struct otf)"

definition always_uncertain :: "'gp collab \<Rightarrow> bool" where
  "always_uncertain env \<longleftrightarrow>
     (\<forall>g c n i. \<exists>f v. gp_predict env g c n i = Inr (f, v) \<and> fge (fsqrt (fabs v)) threshold)"


text \<open>The number of oracle queries recorded in an output file.\<close>

definition oracle_queries :: "log_entry list \<Rightarrow> nat" where
  "oracle_queries out = length (filter (\<lambda>e. e = CallingQE) out)"

text \<open>
  Collaborators for the end-to-end scenarios: a surrogate that reports zero force and zero
  variance, an oracle that returns zero forces, a training step that keeps the model, and the
  same with a surrogate that reports the variance \<open>1\<close>, that is a standard deviation of \<open>1.0\<close>.
\<close>

definition quiet_env :: "unit collab" where
  "quiet_env =
     \<lparr>new_gp = (\<lambda>_. ()),
      gp_predict = (\<lambda>_ _ _ _. Inr (Fin 0, Fin 0)),
      gp_update_db = (\<lambda>g _ _. Inr g),
      gp_train = (\<lambda>g. Inr g),
      run_espresso = (\<lambda>_ s. Inr (replicate (nat_atoms s) zero_vec)),
      punchout = (\<lambda>_ _ _. Inr atoms_example),
      parse_qe_input = (\<lambda>_. Inr None),
      new_structure = (\<lambda>_ _ _ _ _ _. Inr atoms_example),
      random_draw = (\<lambda>_ _. 0)\<rparr>"

definition doubtful_env :: "unit collab" where
  "doubtful_env = quiet_env\<lparr>gp_predict := (\<lambda>_ _ _ _. Inr (Fin 0, Fin 1))\<rparr>"

text \<open>The engine of the scenarios: two atoms, \<open>dt = 0.0001\<close>, five steps, no punch-out.\<close>

definition example_otf :: "unit otf" where
  "example_otf =
     \<lparr>qe_input = ''pwscf.in'', dt = Fin (1 / 10000), Nsteps = 5, gp = (), cutoff = Fin 10,
      punchout_d = None, struct = atoms_example, curr_step = 0, train_structure = None,
      out_file = [Header], rng = 0\<rparr>"

text \<open>
  A structure at rest: the predicted forces and uncertainties are all zero, the structure
  that the loop holds from the first prediction on when the surrogate is always certain.
\<close>

definition rest_struct :: "struc \<Rightarrow> struc" where
  "rest_struct s =
     s\<lparr>forces := replicate (nat_atoms s) zero_vec, stds := replicate (nat_atoms s) zero_vec\<rparr>"


section \<open>Properties of the uncertainty policy\<close>


lemma fge_refl: "\<not> is_nan a \<Longrightarrow> fge a a"
  by (cases a) auto

lemma fge_trans: "fge a b \<Longrightarrow> fge b c \<Longrightarrow> fge a c"
  by (cases a; cases b; cases c) auto

lemma fge_total: "\<not> is_nan a \<Longrightarrow> \<not> is_nan b \<Longrightarrow> fge a b \<or> fge b a"
  by (cases a; cases b) auto

lemma fge_not_nan: "fge a b \<Longrightarrow> \<not> is_nan a \<and> \<not> is_nan b"
  by (cases a; cases b) auto

lemma flt_iff_not_fge: "\<not> is_nan a \<Longrightarrow> \<not> is_nan b \<Longrightarrow> flt a b \<longleftrightarrow> \<not> fge a b"
  by (cases a; cases b) auto

lemma fge_antisym: "fge a b \<Longrightarrow> fge b a \<Longrightarrow> a = b"
  by (cases a; cases b) auto

lemma foldl_fmax_acc:
  "\<not> is_nan e \<Longrightarrow>
     \<not> is_nan (foldl np_fmax e es) \<and> foldl np_fmax e es \<in> set (e # es) \<and>
     (\<forall>x\<in>set (e # es). \<not> is_nan x \<longrightarrow> fge (foldl np_fmax e es) x)"
proof (induction es arbitrary: e)
  case Nil
  then show ?case by (simp add: fge_refl)
next
  case (Cons y ys)
  let ?e' = "np_fmax e y"
  have e': "\<not> is_nan ?e'" "?e' = e \<or> ?e' = y" "fge ?e' e" "\<not> is_nan y \<Longrightarrow> fge ?e' y"
    using Cons.prems fge_total[of e y] by (auto simp: np_fmax_def fge_refl)
  from Cons.IH[OF e'(1)] have IH: "\<not> is_nan (foldl np_fmax ?e' ys)"
    "foldl np_fmax ?e' ys \<in> set (?e' # ys)"
    "\<forall>x\<in>set (?e' # ys). \<not> is_nan x \<longrightarrow> fge (foldl np_fmax ?e' ys) x" by auto
  have "fge (foldl np_fmax ?e' ys) ?e'" using IH(3) e'(1) by simp
  then have "fge (foldl np_fmax ?e' ys) e" "\<not> is_nan y \<Longrightarrow> fge (foldl np_fmax ?e' ys) y"
    using e'(3,4) fge_trans by blast+
  then show ?case using IH e'(2) by auto
qed

lemma np_fmax_NaN_left: "np_fmax NaN b = b"
  by (simp add: np_fmax_def)

lemma foldl_fmax_all_nan: "\<forall>x\<in>set es. is_nan x \<Longrightarrow> foldl np_fmax NaN es = NaN"
  by (induction es) (auto simp: np_fmax_NaN_left elim: is_nan.elims)

lemma foldl_fmax_skip:
  "x \<in> set es \<Longrightarrow> \<not> is_nan x \<Longrightarrow>
     \<exists>e' es'. foldl np_fmax NaN es = foldl np_fmax e' es' \<and> \<not> is_nan e' \<and> e' \<in> set es \<and>
       set es' \<subseteq> set es \<and> (\<forall>y\<in>set es. \<not> is_nan y \<longrightarrow> y \<in> set (e' # es'))"
proof (induction es)
  case Nil
  then show ?case by simp
next
  case (Cons y ys)
  show ?case
  proof (cases "is_nan y")
    case True
    then have y: "y = NaN" by (cases y) auto
    with Cons.prems have "x \<in> set ys" by auto
    from Cons.IH[OF this Cons.prems(2)] obtain e' es' where
      "foldl np_fmax NaN ys = foldl np_fmax e' es'" "\<not> is_nan e'" "e' \<in> set ys"
      "set es' \<subseteq> set ys" "\<forall>y\<in>set ys. \<not> is_nan y \<longrightarrow> y \<in> set (e' # es')" by blast
    then show ?thesis using y by (intro exI[of _ e'] exI[of _ es']) (auto simp: np_fmax_NaN_left)
  next
    case False
    then show ?thesis by (intro exI[of _ y] exI[of _ ys]) (auto simp: np_fmax_NaN_left)
  qed
qed

text \<open>
  \<^verbatim>\<open>np.nanmax\<close> of a non-empty list is NaN when every entry is NaN, and the greatest
  entry that is not NaN otherwise.
\<close>

lemma foldl_fmax_char:
  "(if \<forall>x\<in>set (e # es). is_nan x then foldl np_fmax e es = NaN
    else \<not> is_nan (foldl np_fmax e es) \<and> foldl np_fmax e es \<in> set (e # es) \<and>
         (\<forall>x\<in>set (e # es). \<not> is_nan x \<longrightarrow> fge (foldl np_fmax e es) x))"
proof (cases "is_nan e")
  case False
  then show ?thesis using foldl_fmax_acc[OF False, of es] by auto
next
  case True
  then have e: "e = NaN" by (cases e) auto
  show ?thesis
  proof (cases "\<forall>x\<in>set es. is_nan x")
    case True
    then show ?thesis using e foldl_fmax_all_nan by auto
  next
    case False
    then obtain x where x: "x \<in> set es" "\<not> is_nan x" by blast
    from foldl_fmax_skip[OF x] obtain e' es' where s:
      "foldl np_fmax NaN es = foldl np_fmax e' es'" "\<not> is_nan e'" "e' \<in> set es"
      "set es' \<subseteq> set es" "\<forall>y\<in>set es. \<not> is_nan y \<longrightarrow> y \<in> set (e' # es')" by blast
    from foldl_fmax_acc[OF s(2), of es'] s x e show ?thesis by auto
  qed
qed


lemma problem_atoms_from_filter:
  "problem_atoms_from i rows =
     [k \<leftarrow> [i ..< i + length rows]. fge (np_max (rows ! (k - i))) threshold]"
proof (induction rows arbitrary: i)
  case Nil
  then show ?case by simp
next
  case (Cons r rs)
  have *: "[k \<leftarrow> [Suc i ..< Suc i + length rs]. fge (np_max (rs ! (k - Suc i))) threshold] =
           [k \<leftarrow> [Suc i ..< Suc i + length rs]. fge (np_max ((r # rs) ! (k - i))) threshold]"
  proof (rule filter_cong[OF refl])
    fix k assume "k \<in> set [Suc i ..< Suc i + length rs]"
    then have "k - i = Suc (k - Suc i)" by auto
    then show "fge (np_max (rs ! (k - Suc i))) threshold =
               fge (np_max ((r # rs) ! (k - i))) threshold" by simp
  qed
  have u: "[i ..< i + length (r # rs)] = i # [Suc i ..< Suc i + length rs]"
    using upt_conv_Cons[of i "i + length (r # rs)"] by simp
  have "problem_atoms_from i (r # rs) =
          (if fge (np_max r) threshold then [i] else []) @ problem_atoms_from (Suc i) rs"
    by simp
  also have "\<dots> = (if fge (np_max r) threshold then [i] else []) @
       [k \<leftarrow> [Suc i ..< Suc i + length rs]. fge (np_max ((r # rs) ! (k - i))) threshold]"
    using Cons.IH[of "Suc i"] * by (simp only:)
  also have "\<dots> = [k \<leftarrow> i # [Suc i ..< Suc i + length rs].
                        fge (np_max ((r # rs) ! (k - i))) threshold]"
    by simp
  finally show ?case by (simp only: u)
qed

lemma np_max_ge_iff:
  "fge (np_max r) t \<longleftrightarrow>
     (\<forall>c\<in>set (comps r). \<not> is_nan c) \<and> (\<exists>c\<in>set (comps r). fge c t)"
proof -
  obtain x y z where r: "r = (x, y, z)" by (cases r) auto
  have m: "\<not> is_nan a \<Longrightarrow> \<not> is_nan b \<Longrightarrow>
      \<not> is_nan (np_maximum a b) \<and> (fge (np_maximum a b) t \<longleftrightarrow> fge a t \<or> fge b t)" for a b
    using fge_total[of a b] fge_trans[of a b t] fge_trans[of b a t]
    by (auto simp: np_maximum_def)
  have n: "is_nan a \<or> is_nan b \<Longrightarrow> np_maximum a b = NaN" for a b
    by (auto simp: np_maximum_def)
  show ?thesis
  proof (cases "is_nan x \<or> is_nan y \<or> is_nan z")
    case True
    then have "np_max r = NaN" using n[of x y] n[of "np_maximum x y" z] r
      by (auto simp: np_max_def)
    then show ?thesis using True r by (auto simp: comps_def)
  next
    case False
    then show ?thesis using m[of x y] m[of "np_maximum x y" z] r
      by (auto simp: np_max_def comps_def)
  qed
qed

lemma entries_nonempty: "rows \<noteq> [] \<Longrightarrow> entries rows \<noteq> []"
  by (cases rows) (auto simp: entries_def comps_def split: prod.splits)

lemma nanmax_ge_iff:
  assumes "rows \<noteq> []"
  shows "\<exists>m. np_nanmax rows = Inr m \<and> (fge m t \<longleftrightarrow> (\<exists>e\<in>set (entries rows). fge e t))"
proof -
  from entries_nonempty[OF assms] obtain e es where E: "entries rows = e # es"
    by (cases "entries rows") auto
  let ?m = "foldl np_fmax e es"
  have nm: "np_nanmax rows = Inr ?m" using E by (simp add: np_nanmax_def entries_def)
  have "fge ?m t \<longleftrightarrow> (\<exists>x\<in>set (e # es). fge x t)"
  proof
    assume g: "fge ?m t"
    then have "\<not> is_nan ?m" using fge_not_nan by blast
    then have "?m \<in> set (e # es)" using foldl_fmax_char[of e es] by (auto split: if_splits)
    with g show "\<exists>x\<in>set (e # es). fge x t" by blast
  next
    assume "\<exists>x\<in>set (e # es). fge x t"
    then obtain x where x: "x \<in> set (e # es)" "fge x t" by blast
    then have nx: "\<not> is_nan x" using fge_not_nan by blast
    then have "fge ?m x" using foldl_fmax_char[of e es] x(1) by (auto split: if_splits)
    then show "fge ?m t" using x(2) fge_trans by blast
  qed
  then show ?thesis using nm E by auto
qed

lemma is_std_in_bound_char:
  assumes "stds s \<noteq> []"
  shows "is_std_in_bound s =
     (if \<exists>e\<in>set (entries (stds s)). fge e threshold
      then Inr (False, [i \<leftarrow> [0 ..< length (stds s)].
                  (\<forall>c\<in>set (comps (stds s ! i)). \<not> is_nan c) \<and>
                  (\<exists>c\<in>set (comps (stds s ! i)). fge c threshold)])
      else Inr (True, []))"
proof -
  from nanmax_ge_iff[OF assms, of threshold] obtain m where
    m: "np_nanmax (stds s) = Inr m"
       "fge m threshold \<longleftrightarrow> (\<exists>e\<in>set (entries (stds s)). fge e threshold)" by blast
  show ?thesis
    using m by (simp add: is_std_in_bound_def problem_atoms_from_filter np_max_ge_iff)
qed


lemma maximum_exists:
  assumes "xs \<noteq> []" "\<forall>x\<in>set xs. \<not> is_nan x"
  shows "\<exists>m. is_maximum_of m xs"
proof -
  obtain e es where E: "xs = e # es" using assms(1) by (cases xs) auto
  have "is_maximum_of (foldl np_fmax e es) xs"
    using foldl_fmax_char[of e es] assms(2) E unfolding is_maximum_of_def
    by (auto split: if_splits)
  then show ?thesis ..
qed

lemma maximum_ge_iff:
  assumes "is_maximum_of m xs" "\<forall>x\<in>set xs. \<not> is_nan x"
  shows "fge m t \<longleftrightarrow> (\<exists>x\<in>set xs. fge x t)"
  using assms fge_trans unfolding is_maximum_of_def by blast

lemma row_max_ge_iff:
  assumes "\<forall>c\<in>set (comps row). \<not> is_nan c"
  shows "row_max_ge row t \<longleftrightarrow> (\<exists>c\<in>set (comps row). fge c t)"
proof -
  have ne: "comps row \<noteq> []" by (simp add: comps_def split: prod.splits)
  from maximum_exists[OF ne assms] obtain m where m: "is_maximum_of m (comps row)" ..
  show ?thesis
    using m maximum_ge_iff[OF _ assms] unfolding row_max_ge_def
    by (metis is_maximum_of_def)
qed

lemma row_in_entries: "i < length rows \<Longrightarrow> c \<in> set (comps (rows ! i)) \<Longrightarrow> c \<in> set (entries rows)"
  unfolding entries_def by (auto intro!: bexI[of _ "rows ! i"])

text \<open>
  Claim C1. For a non-empty array of uncertainties without NaN entries, the policy returns
  \<open>(True, [])\<close> exactly when the maximum entry is strictly below the threshold \<open>0.1\<close>, and
  otherwise \<open>(False, P)\<close> where \<open>P\<close> lists, in ascending order, the indices of the atoms whose
  own maximum component is at least the threshold. The policy is a function of the structure
  and returns only this pair, so it changes nothing.
\<close>

theorem is_std_in_bound_max:
  assumes "stds s \<noteq> []" and "\<forall>e\<in>set (entries (stds s)). \<not> is_nan e"
  shows "(\<exists>m. is_maximum_of m (entries (stds s))) \<and>
     (\<forall>m. is_maximum_of m (entries (stds s)) \<longrightarrow>
        (is_std_in_bound s = Inr (True, []) \<longleftrightarrow> flt m threshold) \<and>
        (\<not> flt m threshold \<longrightarrow>
           is_std_in_bound s =
             Inr (False, [i \<leftarrow> [0 ..< length (stds s)]. row_max_ge (stds s ! i) threshold])))"
proof (intro conjI allI impI)
  show "\<exists>m. is_maximum_of m (entries (stds s))"
    using maximum_exists[OF entries_nonempty[OF assms(1)] assms(2)] .
next
  have rows: "[i \<leftarrow> [0 ..< length (stds s)].
                  (\<forall>c\<in>set (comps (stds s ! i)). \<not> is_nan c) \<and>
                  (\<exists>c\<in>set (comps (stds s ! i)). fge c threshold)] =
              [i \<leftarrow> [0 ..< length (stds s)]. row_max_ge (stds s ! i) threshold]"
  proof (rule filter_cong[OF refl])
    fix i assume "i \<in> set [0 ..< length (stds s)]"
    then have i: "i < length (stds s)" by simp
    have nn: "\<forall>c\<in>set (comps (stds s ! i)). \<not> is_nan c"
      using row_in_entries[OF i] assms(2) by blast
    show "((\<forall>c\<in>set (comps (stds s ! i)). \<not> is_nan c) \<and>
           (\<exists>c\<in>set (comps (stds s ! i)). fge c threshold)) =
          row_max_ge (stds s ! i) threshold"
      using nn row_max_ge_iff[OF nn] by simp
  qed
  fix m assume m: "is_maximum_of m (entries (stds s))"
  have mn: "\<not> is_nan m" using m assms(2) unfolding is_maximum_of_def by blast
  have thr: "\<not> is_nan threshold" by (simp add: threshold_def)
  have lt: "flt m threshold \<longleftrightarrow> \<not> (\<exists>e\<in>set (entries (stds s)). fge e threshold)"
    using maximum_ge_iff[OF m assms(2), of threshold] flt_iff_not_fge[OF mn thr] by simp
  show "is_std_in_bound s = Inr (True, []) \<longleftrightarrow> flt m threshold"
    using is_std_in_bound_char[OF assms(1)] lt by simp
  show "is_std_in_bound s =
          Inr (False, [i \<leftarrow> [0 ..< length (stds s)]. row_max_ge (stds s ! i) threshold])"
    if "\<not> flt m threshold"
    using is_std_in_bound_char[OF assms(1)] lt that rows by simp
qed

theorem is_std_in_bound_max_witness:
  "stds atoms_example \<noteq> [] \<and> \<not> (\<exists>e\<in>set (entries (stds atoms_example)). is_nan e) \<and>
   is_maximum_of (Fin (1 / 5)) (entries (stds atoms_example)) \<and>
   \<not> flt (Fin (1 / 5)) threshold \<and>
   is_std_in_bound atoms_example = Inr (False, [1])"
proof -
  have h1: "stds atoms_example \<noteq> []" by (simp add: atoms_example_def)
  have h2: "\<forall>e\<in>set (entries (stds atoms_example)). \<not> is_nan e"
    by (simp add: atoms_example_def entries_def comps_def)
  have mx: "is_maximum_of (Fin (1 / 5)) (entries (stds atoms_example))"
    by (simp add: atoms_example_def entries_def comps_def is_maximum_of_def)
  have nl: "\<not> flt (Fin (1 / 5)) threshold" by (simp add: threshold_def)
  have r0: "\<not> row_max_ge (Fin 0, Fin 0, Fin 0) threshold"
    by (subst row_max_ge_iff) (simp_all add: comps_def threshold_def)
  have r1: "row_max_ge (Fin 0, Fin (1 / 5), Fin (1 / 20)) threshold"
    by (subst row_max_ge_iff) (simp_all add: comps_def threshold_def)
  have "[i \<leftarrow> [0 ..< length (stds atoms_example)]. row_max_ge (stds atoms_example ! i) threshold] = [1]"
    using r0 r1 by (simp add: atoms_example_def upt_rec)
  then show ?thesis
    using is_std_in_bound_max[OF h1 h2] h1 h2 mx nl by simp
qed

text \<open>
  Claim C2, as the code has it. The bound test skips a NaN entry rather than treating it as
  out of bound: on a non-empty array the policy answers \<open>True\<close>, with no problem atom, exactly
  when no entry compares \<open>\<ge> 0.1\<close>, which no NaN does, and \<open>False\<close> otherwise; so an array of
  NaN only is answered \<open>(True, [])\<close>.
\<close>

theorem is_std_in_bound_skips_nan:
  assumes "stds s \<noteq> []"
  shows "\<exists>b P. is_std_in_bound s = Inr (b, P) \<and>
           (b \<longleftrightarrow> \<not> (\<exists>e\<in>set (entries (stds s)). \<not> is_nan e \<and> fge e threshold)) \<and>
           (b \<longrightarrow> P = []) \<and>
           ((\<forall>e\<in>set (entries (stds s)). is_nan e) \<longrightarrow> is_std_in_bound s = Inr (True, []))"
proof -
  have "fge e threshold \<longleftrightarrow> \<not> is_nan e \<and> fge e threshold" for e
    using fge_not_nan by blast
  then have "(\<exists>e\<in>set (entries (stds s)). fge e threshold) \<longleftrightarrow>
             (\<exists>e\<in>set (entries (stds s)). \<not> is_nan e \<and> fge e threshold)"
    by blast
  then show ?thesis
    using is_std_in_bound_char[OF assms] by auto
qed

theorem is_std_in_bound_skips_nan_witness:
  "stds some_nan_example \<noteq> [] \<and> stds all_nan_example \<noteq> [] \<and>
   (\<exists>P. is_std_in_bound some_nan_example = Inr (False, P)) \<and>
   \<not> (\<exists>e\<in>set (entries (stds all_nan_example)). \<not> is_nan e) \<and>
   (\<exists>b. is_std_in_bound all_nan_example = Inr (b, []) \<and> b)"
proof -
  have h: "stds some_nan_example \<noteq> []" by (simp add: some_nan_example_def)
  have h': "stds all_nan_example \<noteq> []" by (simp add: all_nan_example_def)
  have e: "\<exists>e\<in>set (entries (stds some_nan_example)). \<not> is_nan e \<and> fge e threshold"
    by (simp add: some_nan_example_def entries_def comps_def threshold_def
        conj_disj_distribR ex_disj_distrib)
  have n: "\<forall>e\<in>set (entries (stds all_nan_example)). is_nan e"
    by (simp add: all_nan_example_def entries_def comps_def)
  have "\<exists>P. is_std_in_bound some_nan_example = Inr (False, P)"
    using is_std_in_bound_skips_nan[OF h] e by auto
  moreover have "\<exists>b. is_std_in_bound all_nan_example = Inr (b, []) \<and> b"
    using is_std_in_bound_skips_nan[OF h'] n by auto
  ultimately show ?thesis using h h' n by blast
qed

text \<open>
  The claim as stated fails: with every uncertainty NaN the policy answers \<open>(True, [])\<close>, and
  an atom with a NaN component is left out of the problem atoms even when the answer is
  \<open>False\<close>.
\<close>

theorem nan_is_trusted_counterexample:
  "is_std_in_bound all_nan_example = Inr (True, []) \<and>
   is_std_in_bound some_nan_example = Inr (False, [1])"
  by (simp add: is_std_in_bound_def np_nanmax_def all_nan_example_def some_nan_example_def
      comps_def np_fmax_def np_max_def np_maximum_def threshold_def)

section \<open>Properties of the integrator\<close>

lemma ebind_Inr [simp]: "ebind (Inr x) f = f x"
  by (simp add: ebind_def)

lemma ebind_Inl [simp]: "ebind (Inl e) f = Inl e"
  by (simp add: ebind_def)

lemma get_in_range [simp]: "i < length xs \<Longrightarrow> get xs i = Inr (xs ! i)"
  by (simp add: get_def)

lemma get_out_of_range [simp]: "\<not> i < length xs \<Longrightarrow> get xs i = Inl IndexError"
  by (simp add: get_def)

lemma lookup_mass_of:
  "mass_dict s (species s ! i) \<noteq> None \<Longrightarrow> lookup (mass_dict s) (species s ! i) = Inr (mass_of s i)"
  by (auto simp: lookup_def mass_of_def split: option.splits)

lemma update_positions_from_spec:
  assumes "i + length ps \<le> length (positions s)" "i + length ps \<le> length (species s)"
    "i + length ps \<le> length (forces s)" "i + length ps \<le> length (prev_positions s)"
    "\<forall>k<length (species s). mass_dict s (species s ! k) \<noteq> None"
  shows "\<exists>s'. update_positions_from dtdt i ps s = Inr s' \<and>
     species s' = species s \<and> mass_dict s' = mass_dict s \<and> forces s' = forces s \<and>
     stds s' = stds s \<and> nat_atoms s' = nat_atoms s \<and>
     length (positions s') = length (positions s) \<and>
     length (prev_positions s') = length (prev_positions s) \<and>
     (\<forall>k<length (positions s).
        positions s' ! k =
          (if i \<le> k \<and> k < i + length ps
           then verlet dtdt (mass_of s k) (positions s ! k) (ps ! (k - i)) (forces s ! k)
           else positions s ! k)) \<and>
     (\<forall>k<length (prev_positions s).
        prev_positions s' ! k =
          (if i \<le> k \<and> k < i + length ps then positions s ! k else prev_positions s ! k))"
  using assms
proof (induction ps arbitrary: i s)
  case Nil
  then show ?case by auto
next
  case (Cons p ps)
  let ?new = "verlet dtdt (mass_of s i) (positions s ! i) p (forces s ! i)"
  let ?s1 = "s\<lparr>positions := (positions s)[i := ?new],
               prev_positions := (prev_positions s)[i := positions s ! i]\<rparr>"
  have i: "i < length (positions s)" "i < length (species s)" "i < length (forces s)"
    "i < length (prev_positions s)"
    using Cons.prems by auto
  have m: "lookup (mass_dict s) (species s ! i) = Inr (mass_of s i)"
    using Cons.prems(5) i(2) lookup_mass_of by blast
  have step: "update_positions_from dtdt i (p # ps) s = update_positions_from dtdt (Suc i) ps ?s1"
    using i m by simp
  have mo: "mass_of ?s1 k = mass_of s k" for k
    by (simp add: mass_of_def)
  from Cons.IH[of "Suc i" ?s1] Cons.prems obtain s' where s':
    "update_positions_from dtdt (Suc i) ps ?s1 = Inr s'"
    "species s' = species s" "mass_dict s' = mass_dict s" "forces s' = forces s"
    "stds s' = stds s" "nat_atoms s' = nat_atoms s"
    "length (positions s') = length (positions s)"
    "length (prev_positions s') = length (prev_positions s)"
    "\<forall>k<length (positions s).
        positions s' ! k =
          (if Suc i \<le> k \<and> k < Suc i + length ps
           then verlet dtdt (mass_of s k) (positions ?s1 ! k) (ps ! (k - Suc i)) (forces s ! k)
           else positions ?s1 ! k)"
    "\<forall>k<length (prev_positions s).
        prev_positions s' ! k =
          (if Suc i \<le> k \<and> k < Suc i + length ps then positions ?s1 ! k
           else prev_positions ?s1 ! k)"
    by (auto simp: mo)
  have pos: "positions s' ! k =
          (if i \<le> k \<and> k < i + length (p # ps)
           then verlet dtdt (mass_of s k) (positions s ! k) ((p # ps) ! (k - i)) (forces s ! k)
           else positions s ! k)" if "k < length (positions s)" for k
  proof (cases "k = i")
    case True
    then show ?thesis using s'(9) that by simp
  next
    case False
    then show ?thesis using s'(9) that by (auto simp: nth_Cons')
  qed
  have prev: "prev_positions s' ! k =
          (if i \<le> k \<and> k < i + length (p # ps) then positions s ! k else prev_positions s ! k)"
    if "k < length (prev_positions s)" for k
  proof (cases "k = i")
    case True
    then show ?thesis using s'(10) that by simp
  next
    case False
    then show ?thesis using s'(10) that by auto
  qed
  show ?case
    unfolding step using s'(1-8) pos prev by blast
qed


lemma md_update_positions_from_spec:
  assumes "i + length ps \<le> length (positions s)" "i + length ps \<le> length (species s)"
    "i + length ps \<le> length (forces s)" "i + length ps \<le> length new_pos"
    "\<forall>k<length (species s). mass_dict s (species s ! k) \<noteq> None"
  shows "\<exists>r. md_update_positions_from dtdt i ps s new_pos = Inr r \<and>
     length r = length new_pos \<and>
     (\<forall>k<length new_pos.
        r ! k =
          (if i \<le> k \<and> k < i + length ps
           then verlet dtdt (mass_of s k) (positions s ! k) (ps ! (k - i)) (forces s ! k)
           else new_pos ! k))"
  using assms
proof (induction ps arbitrary: i new_pos)
  case Nil
  then show ?case by auto
next
  case (Cons p ps)
  let ?new = "verlet dtdt (mass_of s i) (positions s ! i) p (forces s ! i)"
  have i: "i < length (positions s)" "i < length (species s)" "i < length (forces s)"
    "i < length new_pos"
    using Cons.prems by auto
  have m: "lookup (mass_dict s) (species s ! i) = Inr (mass_of s i)"
    using Cons.prems(5) i(2) lookup_mass_of by blast
  have step: "md_update_positions_from dtdt i (p # ps) s new_pos =
              md_update_positions_from dtdt (Suc i) ps s (new_pos[i := ?new])"
    using i m by simp
  from Cons.IH[of "Suc i" "new_pos[i := ?new]"] Cons.prems obtain r where r:
    "md_update_positions_from dtdt (Suc i) ps s (new_pos[i := ?new]) = Inr r"
    "length r = length new_pos"
    "\<forall>k<length new_pos.
        r ! k =
          (if Suc i \<le> k \<and> k < Suc i + length ps
           then verlet dtdt (mass_of s k) (positions s ! k) (ps ! (k - Suc i)) (forces s ! k)
           else new_pos[i := ?new] ! k)"
    by auto
  have "r ! k =
          (if i \<le> k \<and> k < i + length (p # ps)
           then verlet dtdt (mass_of s k) (positions s ! k) ((p # ps) ! (k - i)) (forces s ! k)
           else new_pos ! k)" if "k < length new_pos" for k
  proof (cases "k = i")
    case True
    then show ?thesis using r(3) that by simp
  next
    case False
    then show ?thesis using r(3) that by (auto simp: nth_Cons')
  qed
  then show ?case
    unfolding step using r(1,2) by blast
qed

lemma wf_struc_mass: "wf_struc s \<Longrightarrow> \<forall>k<length (species s). mass_dict s (species s ! k) \<noteq> None"
  by (auto simp: wf_struc_def)

lemma update_positions_result:
  assumes "wf_struc s"
  shows "\<exists>s'. update_positions tstep s = Inr s' \<and>
     md_update_positions tstep (nat_atoms s) s = Inr (positions s') \<and>
     species s' = species s \<and> mass_dict s' = mass_dict s \<and> forces s' = forces s \<and>
     stds s' = stds s \<and> nat_atoms s' = nat_atoms s \<and>
     length (positions s') = nat_atoms s \<and> length (prev_positions s') = nat_atoms s \<and>
     (\<forall>k<nat_atoms s.
        positions s' ! k =
          verlet (fmul tstep tstep) (mass_of s k) (positions s ! k) (prev_positions s ! k) (forces s ! k) \<and>
        prev_positions s' ! k = positions s ! k)"
proof -
  have len: "length (positions s) = nat_atoms s" "length (prev_positions s) = nat_atoms s"
    "length (species s) = nat_atoms s" "length (forces s) = nat_atoms s"
    using assms by (auto simp: wf_struc_def)
  from update_positions_from_spec[of 0 "prev_positions s" s "fmul tstep tstep"] len wf_struc_mass[OF assms]
  obtain s' where s': "update_positions_from (fmul tstep tstep) 0 (prev_positions s) s = Inr s'"
    "species s' = species s" "mass_dict s' = mass_dict s" "forces s' = forces s"
    "stds s' = stds s" "nat_atoms s' = nat_atoms s"
    "length (positions s') = nat_atoms s" "length (prev_positions s') = nat_atoms s"
    "\<forall>k<nat_atoms s. positions s' ! k =
        verlet (fmul tstep tstep) (mass_of s k) (positions s ! k) (prev_positions s ! k) (forces s ! k)"
    "\<forall>k<nat_atoms s. prev_positions s' ! k = positions s ! k"
    by auto
  from md_update_positions_from_spec[of 0 "prev_positions s" s
      "replicate (nat_atoms s) (Fin 0, Fin 0, Fin 0)" "fmul tstep tstep"] len wf_struc_mass[OF assms]
  obtain r where r: "md_update_positions_from (fmul tstep tstep) 0 (prev_positions s) s
        (replicate (nat_atoms s) (Fin 0, Fin 0, Fin 0)) = Inr r"
    "length r = nat_atoms s"
    "\<forall>k<nat_atoms s. r ! k =
        verlet (fmul tstep tstep) (mass_of s k) (positions s ! k) (prev_positions s ! k) (forces s ! k)"
    by auto
  have "r = positions s'"
    using r(2,3) s'(7,9) by (auto intro: nth_equalityI)
  then show ?thesis
    using s' r(1) by (auto simp: update_positions_def md_update_positions_def)
qed

text \<open>
  Claim C4. On a well-formed structure the position update succeeds and gives every atom
  \<open>i\<close> the position \<open>2 \<cdot> positions[i] - prev_positions[i] + dt\<^sup>2 \<cdot> forces[i] / mass(species[i])\<close>,
  computed componentwise from the values held before the call; afterwards
  \<open>prev_positions[i]\<close> is the old \<open>positions[i]\<close>, and species, forces, uncertainties and masses
  are as before. The function of \<^verbatim>\<open>flare/md.py\<close> returns the same new positions.
\<close>

theorem update_positions_verlet:
  assumes "wf_struc s"
  shows "\<exists>s'. update_positions tstep s = Inr s' \<and>
     (\<forall>i<nat_atoms s.
        positions s' ! i =
          vzip fadd (vzip fsub (vmap (fmul (Fin 2)) (positions s ! i)) (prev_positions s ! i))
            (vmap (\<lambda>f. fdiv (fmul (fmul tstep tstep) f) (mass_of s i)) (forces s ! i)) \<and>
        prev_positions s' ! i = positions s ! i) \<and>
     length (positions s') = nat_atoms s \<and> length (prev_positions s') = nat_atoms s \<and>
     species s' = species s \<and> forces s' = forces s \<and> stds s' = stds s \<and>
     mass_dict s' = mass_dict s \<and> nat_atoms s' = nat_atoms s \<and>
     md_update_positions tstep (nat_atoms s) s = Inr (positions s')"
  using update_positions_result[OF assms, of tstep] unfolding verlet_def by blast

theorem update_positions_verlet_witness:
  "wf_struc moving_example \<and>
   (\<exists>s'. update_positions (Fin 2) moving_example = Inr s' \<and>
      positions s' ! 1 = (Fin (3 / 2), Fin 8, Fin 0) \<and>
      prev_positions s' ! 1 = (Fin 1, Fin 0, Fin 0))"
proof -
  have wf: "wf_struc moving_example"
    by (simp add: wf_struc_def moving_example_def atoms_example_def)
  have n: "1 < nat_atoms moving_example"
    by (simp add: moving_example_def atoms_example_def)
  from update_positions_verlet[OF wf, of "Fin 2"] obtain s' where
    s': "update_positions (Fin 2) moving_example = Inr s'"
    "\<forall>i<nat_atoms moving_example.
        positions s' ! i =
          vzip fadd (vzip fsub (vmap (fmul (Fin 2)) (positions moving_example ! i))
                      (prev_positions moving_example ! i))
            (vmap (\<lambda>f. fdiv (fmul (fmul (Fin 2) (Fin 2)) f) (mass_of moving_example i))
               (forces moving_example ! i)) \<and>
        prev_positions s' ! i = positions moving_example ! i"
    by blast
  from s'(2) n have
    "positions s' ! 1 =
       vzip fadd (vzip fsub (vmap (fmul (Fin 2)) (positions moving_example ! 1))
                   (prev_positions moving_example ! 1))
         (vmap (\<lambda>f. fdiv (fmul (fmul (Fin 2) (Fin 2)) f) (mass_of moving_example 1))
            (forces moving_example ! 1))"
    "prev_positions s' ! 1 = positions moving_example ! 1"
    by blast+
  then have "positions s' ! 1 = (Fin (3 / 2), Fin 8, Fin 0)"
    "prev_positions s' ! 1 = (Fin 1, Fin 0, Fin 0)"
    by (simp_all add: moving_example_def atoms_example_def vzip_def vmap_def mass_of_def
        fsub_def)
  then show ?thesis using wf s'(1) by blast
qed

lemma verlet_at_rest:
  assumes "finite_vec p" "is_finite dtdt" "\<not> is_nan m" "m \<noteq> Fin 0"
  shows "verlet dtdt m p p zero_vec = p"
proof -
  obtain x y z where p: "p = (Fin x, Fin y, Fin z)"
    using assms(1) by (cases p) (auto simp: finite_vec_def comps_def elim!: is_finite.elims)
  obtain d where d: "dtdt = Fin d" using assms(2) by (cases dtdt) auto
  have "fdiv (Fin 0) m = Fin 0" using assms(3,4) by (cases m) auto
  then show ?thesis
    by (simp add: p d verlet_def vzip_def vmap_def zero_vec_def fsub_def)
qed

text \<open>
  Claim C5. On a well-formed structure with zero forces and \<open>prev_positions = positions\<close>,
  with finite positions and timestep and masses that are neither zero nor NaN, the update
  leaves every position as it was, whatever the timestep.
\<close>

theorem update_positions_at_rest:
  assumes "wf_struc s" "prev_positions s = positions s"
    "\<forall>f\<in>set (forces s). f = zero_vec" "\<forall>p\<in>set (positions s). finite_vec p"
    "is_finite tstep"
    "\<forall>i<nat_atoms s. \<not> is_nan (mass_of s i) \<and> mass_of s i \<noteq> Fin 0"
  shows "\<exists>s'. update_positions tstep s = Inr s' \<and> positions s' = positions s \<and>
     md_update_positions tstep (nat_atoms s) s = Inr (positions s)"
proof -
  from update_positions_result[OF assms(1), of tstep] obtain s' where s':
    "update_positions tstep s = Inr s'"
    "md_update_positions tstep (nat_atoms s) s = Inr (positions s')"
    "length (positions s') = nat_atoms s"
    "\<forall>k<nat_atoms s. positions s' ! k =
        verlet (fmul tstep tstep) (mass_of s k) (positions s ! k) (prev_positions s ! k) (forces s ! k)"
    by blast
  have len: "length (positions s) = nat_atoms s" "length (forces s) = nat_atoms s"
    using assms(1) by (auto simp: wf_struc_def)
  have dtdt: "is_finite (fmul tstep tstep)" using assms(5) by (cases tstep) auto
  have "positions s' ! k = positions s ! k" if "k < nat_atoms s" for k
  proof -
    have "forces s ! k = zero_vec" "finite_vec (positions s ! k)"
      using assms(3,4) len that by auto
    then show ?thesis
      using s'(4) that assms(2,6) dtdt by (simp add: verlet_at_rest)
  qed
  then have "positions s' = positions s"
    using s'(3) len by (auto intro: nth_equalityI)
  then show ?thesis using s'(1,2) by simp
qed

theorem update_positions_at_rest_witness:
  "wf_struc atoms_example \<and> prev_positions atoms_example = positions atoms_example \<and>
   is_finite (Fin (1 / 10000)) \<and>
   (\<exists>s'. update_positions (Fin (1 / 10000)) atoms_example = Inr s' \<and>
      positions s' = [(Fin 0, Fin 0, Fin 0), (Fin 1, Fin 0, Fin 0)])"
proof -
  have wf: "wf_struc atoms_example"
    by (simp add: wf_struc_def atoms_example_def)
  have h2: "prev_positions atoms_example = positions atoms_example"
    by (simp add: atoms_example_def)
  have h3: "\<forall>f\<in>set (forces atoms_example). f = zero_vec"
    by (simp add: atoms_example_def zero_vec_def)
  have h4: "\<forall>p\<in>set (positions atoms_example). finite_vec p"
    by (simp add: atoms_example_def finite_vec_def comps_def)
  have h5: "is_finite (Fin (1 / 10000))" by simp
  have h6: "\<forall>i<nat_atoms atoms_example.
      \<not> is_nan (mass_of atoms_example i) \<and> mass_of atoms_example i \<noteq> Fin 0"
    by (auto simp: atoms_example_def mass_of_def less_Suc_eq numeral_2_eq_2)
  have p: "positions atoms_example = [(Fin 0, Fin 0, Fin 0), (Fin 1, Fin 0, Fin 0)]"
    by (simp add: atoms_example_def)
  from update_positions_at_rest[OF wf h2 h3 h4 h5 h6] obtain s' where
    "update_positions (Fin (1 / 10000)) atoms_example = Inr s'"
    "positions s' = positions atoms_example"
    by blast
  then show ?thesis
    using wf h2 h5 unfolding p by blast
qed

section \<open>Properties of the kinetics derivation\<close>

lemma ke_atom_fold: "ke_atom mass vel KE = foldl fadd KE (map (ke_term mass) (comps vel))"
  by (simp add: ke_atom_def foldl_map)

lemma ke_loop_fold:
  assumes "\<forall>i\<in>set idx. i < length (species s) \<and> i < length velocities"
    "\<forall>k<length (species s). mass_dict s (species s ! k) \<noteq> None"
  shows "ke_loop s velocities idx KE =
     Inr (foldl fadd KE
            (concat (map (\<lambda>i. map (ke_term (mass_of s i)) (comps (velocities ! i))) idx)))"
  using assms
proof (induction idx arbitrary: KE)
  case Nil
  then show ?case by simp
next
  case (Cons i idx)
  have m: "lookup (mass_dict s) (species s ! i) = Inr (mass_of s i)"
    using Cons.prems lookup_mass_of by auto
  show ?case
    using Cons m by (simp add: ke_atom_fold)
qed

lemma calculate_temperature_result:
  assumes "wf_struc s" "length new_pos = nat_atoms s"
    "noa = nat_atoms s \<or> 0 < nat_atoms s"
  shows "calculate_temperature new_pos s tstep noa =
     (let v = map (\<lambda>i. vmap (\<lambda>x. fdiv x (fmul (Fin 2) tstep))
                      (vzip fsub (new_pos ! i) (prev_positions s ! i))) [0 ..< nat_atoms s];
          KE = fsum (concat (map (\<lambda>i. map (ke_term (mass_of s i)) (comps (v ! i)))
                       [0 ..< nat_atoms s]))
      in Inr (KE, fdiv (fmul (Fin 2) KE) (fmul (Fin (of_int (3 * int noa - 3))) kb), v))"
proof -
  have len: "length (positions s) = nat_atoms s" "length (prev_positions s) = nat_atoms s"
    "length (species s) = nat_atoms s"
    using assms(1) by (auto simp: wf_struc_def)
  let ?d = "map (\<lambda>(x, y). vzip fsub x y) (zip new_pos (prev_positions s))"
  let ?v = "map (vmap (\<lambda>x. fdiv x (fmul (Fin 2) tstep))) ?d"
  let ?v' = "map (\<lambda>i. vmap (\<lambda>x. fdiv x (fmul (Fin 2) tstep))
                      (vzip fsub (new_pos ! i) (prev_positions s ! i))) [0 ..< nat_atoms s]"
  have b: "np_broadcast (vzip fsub) new_pos (prev_positions s) = Inr ?d"
    using assms(2) len by (simp add: np_broadcast_def)
  have v: "?v = ?v'"
    using assms(2) len by (auto intro!: nth_equalityI)
  have ke: "ke_loop s ?v' [0 ..< length (positions s)] (Fin 0) =
      Inr (fsum (concat (map (\<lambda>i. map (ke_term (mass_of s i)) (comps (?v' ! i)))
                       [0 ..< nat_atoms s])))"
    using ke_loop_fold[of "[0 ..< nat_atoms s]" s ?v' "Fin 0"] len wf_struc_mass[OF assms(1)]
    by (simp add: fsum_def)
  have nz: "\<not> (positions s = [] \<and> fmul (Fin (of_int (3 * int noa - 3))) kb = Fin 0)"
  proof (cases "0 < nat_atoms s")
    case True
    then show ?thesis using len by auto
  next
    case False
    then have "noa = 0" using assms(3) by auto
    then show ?thesis by (simp add: kb_def)
  qed
  have "calculate_temperature new_pos s tstep noa =
      ebind (ke_loop s ?v [0 ..< length (positions s)] (Fin 0)) (\<lambda>KE.
        if positions s = [] \<and> fmul (Fin (of_int (3 * int noa - 3))) kb = Fin 0
        then Inl ZeroDivisionError
        else Inr (KE, fdiv (fmul (Fin 2) KE) (fmul (Fin (of_int (3 * int noa - 3))) kb), ?v))"
    by (simp only: calculate_temperature_def b ebind_Inr Let_def)
  also have "\<dots> =
      ebind (ke_loop s ?v' [0 ..< length (positions s)] (Fin 0)) (\<lambda>KE.
        if positions s = [] \<and> fmul (Fin (of_int (3 * int noa - 3))) kb = Fin 0
        then Inl ZeroDivisionError
        else Inr (KE, fdiv (fmul (Fin 2) KE) (fmul (Fin (of_int (3 * int noa - 3))) kb), ?v'))"
    unfolding v ..
  also have "\<dots> = (let v = ?v';
          KE = fsum (concat (map (\<lambda>i. map (ke_term (mass_of s i)) (comps (v ! i)))
                       [0 ..< nat_atoms s]))
      in Inr (KE, fdiv (fmul (Fin 2) KE) (fmul (Fin (of_int (3 * int noa - 3))) kb), v))"
    using nz by (simp only: ke ebind_Inr Let_def if_False)
  finally show ?thesis .
qed

text \<open>
  Claim C8. On a well-formed structure of \<open>N\<close> atoms, with one new position per atom and
  \<open>noa = N\<close>, the kinetics derivation returns the central-difference velocities
  \<open>(new_pos[i] - prev_positions[i]) / (2 \<cdot> dt)\<close>, the kinetic energy as the sum over all atoms
  and components of \<open>0.5 \<cdot> mass \<cdot> v\<^sup>2\<close>, and the temperature
  \<open>2 \<cdot> KE / ((3 \<cdot> N - 3) \<cdot> k\<^sub>B)\<close> with \<open>k\<^sub>B = 0.0000861733034\<close>. It returns these three values
  only, so the structure is not modified.
\<close>

theorem calculate_temperature_formulas:
  assumes "wf_struc s" "length new_pos = nat_atoms s"
  shows "\<exists>KE T v. calculate_temperature new_pos s tstep (nat_atoms s) = Inr (KE, T, v) \<and>
     length v = nat_atoms s \<and>
     (\<forall>i<nat_atoms s.
        v ! i = vmap (\<lambda>x. fdiv x (fmul (Fin 2) tstep))
                  (vzip fsub (new_pos ! i) (prev_positions s ! i))) \<and>
     KE = fsum (concat (map (\<lambda>i. map (\<lambda>c. fmul (fmul (fmul (Fin (1 / 2)) (mass_of s i)) c) c)
                                  (comps (v ! i)))
                  [0 ..< nat_atoms s])) \<and>
     T = fdiv (fmul (Fin 2) KE)
           (fmul (Fin (3 * real (nat_atoms s) - 3)) (Fin (861733034 / 10 ^ 13)))"
proof -
  let ?v = "map (\<lambda>i. vmap (\<lambda>x. fdiv x (fmul (Fin 2) tstep))
                      (vzip fsub (new_pos ! i) (prev_positions s ! i))) [0 ..< nat_atoms s]"
  let ?KE = "fsum (concat (map (\<lambda>i. map (ke_term (mass_of s i)) (comps (?v ! i)))
                       [0 ..< nat_atoms s]))"
  have r: "calculate_temperature new_pos s tstep (nat_atoms s) =
      Inr (?KE, fdiv (fmul (Fin 2) ?KE)
                  (fmul (Fin (of_int (3 * int (nat_atoms s) - 3))) kb), ?v)"
    using calculate_temperature_result[OF assms, of "nat_atoms s" tstep]
    by (simp only: Let_def simp_thms)
  have k: "ke_term = (\<lambda>m c. fmul (fmul (fmul (Fin (1 / 2)) m) c) c)"
    by (simp add: ke_term_def fun_eq_iff)
  have d: "Fin (of_int (3 * int (nat_atoms s) - 3)) = Fin (3 * real (nat_atoms s) - 3)"
    by simp
  show ?thesis
    unfolding r d
    by (intro exI conjI, rule refl) (simp_all add: k kb_def del: upt.simps)
qed

theorem calculate_temperature_formulas_witness:
  "wf_struc moving_example \<and>
   (\<exists>KE T v. calculate_temperature (positions moving_example) moving_example (Fin 1) 2 =
        Inr (KE, T, v) \<and>
      v ! 1 = (Fin (1 / 4), Fin 0, Fin 0) \<and>
      T = fdiv (fmul (Fin 2) KE) (fmul (Fin 3) (Fin (861733034 / 10 ^ 13))))"
proof -
  have wf: "wf_struc moving_example"
    by (simp add: wf_struc_def moving_example_def atoms_example_def)
  have l: "length (positions moving_example) = nat_atoms moving_example"
    by (simp add: moving_example_def atoms_example_def)
  have n: "nat_atoms moving_example = 2"
    by (simp add: moving_example_def atoms_example_def)
  from calculate_temperature_formulas[OF wf l, of "Fin 1"] obtain KE T v where
    r: "calculate_temperature (positions moving_example) moving_example (Fin 1) 2 = Inr (KE, T, v)"
    "\<forall>i<2. v ! i = vmap (\<lambda>x. fdiv x (fmul (Fin 2) (Fin 1)))
                  (vzip fsub (positions moving_example ! i) (prev_positions moving_example ! i))"
    "T = fdiv (fmul (Fin 2) KE) (fmul (Fin (3 * real 2 - 3)) (Fin (861733034 / 10 ^ 13)))"
    unfolding n by blast
  have "v ! 1 = (Fin (1 / 4), Fin 0, Fin 0)"
    using r(2) by (simp add: moving_example_def atoms_example_def vmap_def vzip_def fsub_def)
  moreover have "T = fdiv (fmul (Fin 2) KE) (fmul (Fin 3) (Fin (861733034 / 10 ^ 13)))"
    using r(3) by simp
  ultimately show ?thesis using wf r(1) by blast
qed

text \<open>
  Claim C10. For a well-formed structure of exactly one atom and \<open>noa = 1\<close> the divisor
  \<open>(3 \<cdot> noa - 3) \<cdot> k\<^sub>B\<close> is zero and nothing guards the division: the call returns kinetic
  energy and velocities, and a temperature that is never a finite number.
\<close>

lemma fdiv_zero_not_finite: "\<not> is_finite (fdiv x (Fin 0))"
  by (cases x) (auto simp: inf_of_sign_def)

theorem temperature_of_one_atom_not_finite:
  assumes "wf_struc s" "nat_atoms s = 1" "length new_pos = 1"
  shows "fmul (Fin (of_int (3 * int (nat_atoms s) - 3))) kb = Fin 0 \<and>
     (\<exists>KE T v. calculate_temperature new_pos s tstep 1 = Inr (KE, T, v) \<and>
        \<not> is_finite T \<and>
        v = [vmap (\<lambda>x. fdiv x (fmul (Fin 2) tstep))
               (vzip fsub (new_pos ! 0) (prev_positions s ! 0))] \<and>
        KE = fsum (map (ke_term (mass_of s 0)) (comps (v ! 0))))"
proof -
  have z: "fmul (Fin (of_int (3 * int (nat_atoms s) - 3))) kb = Fin 0"
    using assms(2) by (simp add: kb_def)
  have l: "length new_pos = nat_atoms s" using assms by simp
  have "calculate_temperature new_pos s tstep 1 =
     (let v = map (\<lambda>i. vmap (\<lambda>x. fdiv x (fmul (Fin 2) tstep))
                      (vzip fsub (new_pos ! i) (prev_positions s ! i))) [0 ..< 1];
          KE = fsum (concat (map (\<lambda>i. map (ke_term (mass_of s i)) (comps (v ! i))) [0 ..< 1]))
      in Inr (KE, fdiv (fmul (Fin 2) KE) (Fin 0), v))"
    using calculate_temperature_result[OF assms(1) l, of 1 tstep] z assms(2) by simp
  then show ?thesis
    using z fdiv_zero_not_finite by (simp add: Let_def)
qed

theorem temperature_of_one_atom_not_finite_witness:
  "wf_struc one_atom_example \<and> nat_atoms one_atom_example = 1 \<and>
   (\<exists>KE T v. calculate_temperature [(Fin 1, Fin 0, Fin 0)] one_atom_example (Fin 1) 1 =
        Inr (KE, T, v) \<and> \<not> is_finite T \<and> KE = Fin (1 / 8))"
proof -
  have wf: "wf_struc one_atom_example" by (simp add: wf_struc_def one_atom_example_def)
  have n: "nat_atoms one_atom_example = 1" by (simp add: one_atom_example_def)
  have l: "length [(Fin 1, Fin 0, Fin 0)] = 1" by simp
  from temperature_of_one_atom_not_finite[OF wf n l, of "Fin 1"] obtain KE T v where
    r: "calculate_temperature [(Fin 1, Fin 0, Fin 0)] one_atom_example (Fin 1) 1 = Inr (KE, T, v)"
    "\<not> is_finite T"
    "v = [vmap (\<lambda>x. fdiv x (fmul (Fin 2) (Fin 1)))
               (vzip fsub ([(Fin 1, Fin 0, Fin 0)] ! 0) (prev_positions one_atom_example ! 0))]"
    "KE = fsum (map (ke_term (mass_of one_atom_example 0)) (comps (v ! 0)))"
    by blast
  have "KE = Fin (1 / 8)"
    unfolding r(4) r(3)
    by (simp add: one_atom_example_def vmap_def vzip_def fsub_def comps_def fsum_def
        ke_term_def mass_of_def)
  then show ?thesis using wf n r(1,2) by blast
qed

section \<open>Parsing the oracle input template\<close>

text \<open>The loop over the lines leaves \<^verbatim>\<open>cell_index\<close> unset whenever there is a line.\<close>

lemma scan_lines_result:
  "scan_lines i lines (c, p, n) = (if lines = [] then c else None, p, n)"
  by (induction lines arbitrary: i c) auto

text \<open>
  The three assertions: the checks fail exactly when one of the three values is missing, and
  the message names the first missing one.
\<close>

lemma found_checks_fails_iff:
  "(\<exists>e. found_checks c p n = Inl e) \<longleftrightarrow> c = None \<or> p = None \<or> n = None"
  by (auto simp: found_checks_def)

lemma found_checks_diagnostic:
  "found_checks None p n = Inl (AssertionError ''Failed to find cell in input file'')"
  "found_checks (Some i) None n = Inl (AssertionError ''Failed to find positions in input'')"
  "found_checks (Some i) (Some j) None =
     Inl (AssertionError ''Failed to find number of atoms in input'')"
  "found_checks (Some i) (Some j) (Some k) = Inr ()"
  by (simp_all add: found_checks_def)

text \<open>
  Claim C9, where the code departs from it. The parser never locates anything: on the
  example template, which holds all three pieces, and on every other file, it fails with the
  diagnostic of the missing cell, and the two other diagnostics are never produced.
\<close>

theorem parse_dft_input_always_fails:
  "parse_dft_input template_example =
     Inl (AssertionError ''Failed to find cell in input file'') \<and>
   (\<forall>lines. parse_dft_input lines =
     Inl (AssertionError ''Failed to find cell in input file''))"
  by (simp add: parse_dft_input_def scan_lines_result found_checks_def)

section \<open>Properties of the engine loop\<close>

text \<open>
  Prediction changes only the values of the forces and uncertainties, and stores in row \<open>n\<close>
  what the surrogate returns for atom \<open>n\<close>.
\<close>

lemma ebind_eq_Inr: "ebind m f = Inr y \<longleftrightarrow> (\<exists>x. m = Inr x \<and> f x = Inr y)"
  by (cases m) (auto simp: ebind_def)

lemma same_atoms_refl [simp]: "same_atoms s s"
  by (simp add: same_atoms_def)

lemma same_atoms_trans: "same_atoms s'' s' \<Longrightarrow> same_atoms s' s \<Longrightarrow> same_atoms s'' s"
  by (simp add: same_atoms_def)

lemma predict_comps_same:
  "predict_comps env g c n is s = Inr s' \<Longrightarrow> same_atoms s' s"
proof (induction "is" arbitrary: s)
  case Nil
  then show ?case by simp
next
  case (Cons i "is")
  from Cons.prems obtain f v frow srow where
    "predict_comps env g c n is
       (s\<lparr>forces := (forces s)[n := set_comp frow i f],
          stds := (stds s)[n := set_comp srow i (fsqrt (fabs v))]\<rparr>) = Inr s'"
    by (auto simp: ebind_eq_Inr)
  from Cons.IH[OF this] show ?case by (simp add: same_atoms_def)
qed

lemma predict_atoms_same:
  "predict_atoms env g ns s = Inr s' \<Longrightarrow> same_atoms s' s"
proof (induction ns arbitrary: s)
  case Nil
  then show ?case by simp
next
  case (Cons n ns)
  from Cons.prems obtain s1 where s1: "predict_comps env g s n [0, 1, 2] s = Inr s1"
    "predict_atoms env g ns s1 = Inr s'"
    by (auto simp: ebind_eq_Inr)
  show ?case
    using Cons.IH[OF s1(2)] predict_comps_same[OF s1(1)] same_atoms_trans by blast
qed

lemma predict_on_structure_same:
  assumes "predict_on_structure env otf = Inr otf'"
  shows "same_atoms (struct otf') (struct otf) \<and> otf' = otf\<lparr>struct := struct otf'\<rparr>"
  using assms predict_atoms_same
  by (auto simp: predict_on_structure_def ebind_eq_Inr)

lemma predict_comps_ok:
  assumes "\<forall>c n i. \<exists>f v. gp_predict env g c n i = Inr (f, v) \<and> Q f (fsqrt (fabs v))"
    "n < length (forces s)" "n < length (stds s)"
  shows "\<exists>s'. predict_comps env g c n [0, 1, 2] s = Inr s' \<and> row_ok Q s' n \<and>
     (\<forall>k. k \<noteq> n \<longrightarrow> forces s' ! k = forces s ! k \<and> stds s' ! k = stds s ! k)"
proof -
  obtain f0 v0 where p0: "gp_predict env g c n (0 + 1) = Inr (f0, v0)" "Q f0 (fsqrt (fabs v0))"
    using assms(1) by blast
  obtain f1 v1 where p1: "gp_predict env g c n (1 + 1) = Inr (f1, v1)" "Q f1 (fsqrt (fabs v1))"
    using assms(1) by blast
  obtain f2 v2 where p2: "gp_predict env g c n (2 + 1) = Inr (f2, v2)" "Q f2 (fsqrt (fabs v2))"
    using assms(1) by blast
  obtain a b d where fr: "forces s ! n = (a, b, d)" by (cases "forces s ! n") auto
  obtain a' b' d' where sr: "stds s ! n = (a', b', d')" by (cases "stds s ! n") auto
  show ?thesis
    using assms(2,3) p0 p1 p2 fr sr
    by (simp add: set_comp_def row_ok_def)
qed

lemma predict_atoms_ok:
  assumes "\<forall>c n i. \<exists>f v. gp_predict env g c n i = Inr (f, v) \<and> Q f (fsqrt (fabs v))"
    "\<forall>n\<in>set ns. n < length (forces s) \<and> n < length (stds s)"
  shows "\<exists>s'. predict_atoms env g ns s = Inr s' \<and> (\<forall>n\<in>set ns. row_ok Q s' n) \<and>
     (\<forall>k. k \<notin> set ns \<longrightarrow> forces s' ! k = forces s ! k \<and> stds s' ! k = stds s ! k)"
  using assms(2)
proof (induction ns arbitrary: s)
  case Nil
  then show ?case by simp
next
  case (Cons n ns)
  from predict_comps_ok[OF assms(1), of n s s] Cons.prems obtain s1 where s1:
    "predict_comps env g s n [0, 1, 2] s = Inr s1" "row_ok Q s1 n"
    "\<forall>k. k \<noteq> n \<longrightarrow> forces s1 ! k = forces s ! k \<and> stds s1 ! k = stds s ! k"
    by auto
  have sa: "same_atoms s1 s" using predict_comps_same[OF s1(1)] .
  then have "\<forall>n\<in>set ns. n < length (forces s1) \<and> n < length (stds s1)"
    using Cons.prems by (simp add: same_atoms_def)
  from Cons.IH[OF this] obtain s' where s':
    "predict_atoms env g ns s1 = Inr s'" "\<forall>n\<in>set ns. row_ok Q s' n"
    "\<forall>k. k \<notin> set ns \<longrightarrow> forces s' ! k = forces s1 ! k \<and> stds s' ! k = stds s1 ! k"
    by blast
  have "row_ok Q s' n"
  proof (cases "n \<in> set ns")
    case True
    then show ?thesis using s'(2) by blast
  next
    case False
    then show ?thesis using s'(3) s1(2) by (simp add: row_ok_def)
  qed
  then show ?case
    using s1(1,3) s' by auto
qed

text \<open>
  Writing a frame, and one oracle query with retraining: what they append to the output and
  what they leave as it is.
\<close>

lemma wf_same_atoms: "wf_struc s \<Longrightarrow> same_atoms s' s \<Longrightarrow> wf_struc s'"
  by (simp add: wf_struc_def same_atoms_def)

lemma collect_map:
  "\<forall>i\<in>set idx. f i = Inr (h i) \<Longrightarrow> collect f idx = Inr (map h idx)"
  by (induction idx) auto

lemma collect_Inr_length: "collect f idx = Inr xs \<Longrightarrow> length xs = length idx"
  by (induction idx arbitrary: xs) (auto simp: ebind_eq_Inr)

lemma write_config_result:
  "write_config otf = Inr otf' \<Longrightarrow>
     \<exists>rows. otf' = otf\<lparr>out_file := out_file otf @ [Frame (curr_step otf) rows]\<rparr>"
  by (auto simp: write_config_def Let_def ebind_eq_Inr write_to_output_def)

lemma write_config_wf:
  assumes "wf_struc (struct otf)"
  shows "write_config otf =
     Inr (otf\<lparr>out_file := out_file otf @ [Frame (curr_step otf) (frame_rows (struct otf))]\<rparr>)"
proof -
  let ?s = "struct otf"
  have len: "length (positions ?s) = nat_atoms ?s" "length (species ?s) = nat_atoms ?s"
    "length (forces ?s) = nat_atoms ?s" "length (stds ?s) = nat_atoms ?s"
    using assms by (auto simp: wf_struc_def)
  have "collect (\<lambda>i.
               ebind (get (species ?s) i) (\<lambda>sp.
               ebind (get (positions ?s) i) (\<lambda>pos.
               ebind (get (forces ?s) i) (\<lambda>frc.
               ebind (get (stds ?s) i) (\<lambda>std. Inr (sp, pos, frc, std))))))
             [0 ..< length (positions ?s)] = Inr (frame_rows ?s)"
    unfolding frame_rows_def using len by (intro collect_map) simp
  then show ?thesis
    by (simp add: write_config_def Let_def write_to_output_def)
qed

lemma run_and_train_frame:
  assumes "run_and_train env t otf = Inr otf'"
  shows "struct otf' = struct otf \<and> curr_step otf' = curr_step otf \<and>
     Nsteps otf' = Nsteps otf \<and> dt otf' = dt otf \<and> punchout_d otf' = punchout_d otf \<and>
     qe_input otf' = qe_input otf \<and>
     (\<exists>rows. out_file otf' = out_file otf @ train_records rows)"
  using assms
  by (auto simp: run_and_train_def Let_def ebind_eq_Inr write_to_output_def draw_def
      train_records_def split: option.splits if_splits prod.splits)

lemma train_on_succeeds:
  assumes "cooperative env" "wf_struc t"
  shows "\<exists>frcs rows g g'. run_espresso env q t = Inr frcs \<and>
     collect (\<lambda>n.
               ebind (get (species t) n) (\<lambda>sp.
               ebind (get (positions t) n) (\<lambda>pos.
               ebind (get frcs n) (\<lambda>frc. Inr (sp, pos, frc)))))
             [0 ..< nat_atoms t] = Inr rows \<and>
     gp_update_db env g0 t frcs = Inr g \<and> gp_train env g = Inr g'"
proof -
  obtain frcs where f: "run_espresso env q t = Inr frcs" "length frcs = nat_atoms t"
    using assms(1) unfolding cooperative_def by blast
  obtain g where g: "gp_update_db env g0 t frcs = Inr g"
    using assms(1) unfolding cooperative_def by blast
  obtain g' where g': "gp_train env g = Inr g'"
    using assms(1) unfolding cooperative_def by blast
  have len: "length (positions t) = nat_atoms t" "length (species t) = nat_atoms t"
    using assms(2) by (auto simp: wf_struc_def)
  have "collect (\<lambda>n.
               ebind (get (species t) n) (\<lambda>sp.
               ebind (get (positions t) n) (\<lambda>pos.
               ebind (get frcs n) (\<lambda>frc. Inr (sp, pos, frc)))))
             [0 ..< nat_atoms t] =
        Inr (map (\<lambda>n. (species t ! n, positions t ! n, frcs ! n)) [0 ..< nat_atoms t])"
    using len f(2) by (intro collect_map) simp
  then show ?thesis using f(1) g g' by blast
qed

lemma run_and_train_succeeds:
  assumes "cooperative env" "wf_struc (struct otf)" "0 < nat_atoms (struct otf)"
  shows "\<exists>otf'. run_and_train env target otf = Inr otf'"
proof (cases "punchout_d otf")
  case None
  from train_on_succeeds[OF assms(1,2), of "qe_input otf" "gp otf"] obtain frcs rows g g' where
    "run_espresso env (qe_input otf) (struct otf) = Inr frcs"
    "collect (\<lambda>n.
               ebind (get (species (struct otf)) n) (\<lambda>sp.
               ebind (get (positions (struct otf)) n) (\<lambda>pos.
               ebind (get frcs n) (\<lambda>frc. Inr (sp, pos, frc)))))
             [0 ..< nat_atoms (struct otf)] = Inr rows"
    "gp_update_db env (gp otf) (struct otf) frcs = Inr g" "gp_train env g = Inr g'"
    by blast
  then show ?thesis
    using None by (simp add: run_and_train_def Let_def write_to_output_def)
next
  case (Some d)
  define otfa where "otfa = write_to_output CallingQE otf"
  define tg where "tg = (if train_structure otfa = None
      then (Some (random_draw env (rng otfa) (nat_atoms (struct otfa)) mod nat_atoms (struct otfa)),
            otfa\<lparr>rng := Suc (rng otfa)\<rparr>)
      else (target, otfa))"
  have st: "struct (snd tg) = struct otf" "qe_input (snd tg) = qe_input otf"
    "gp (snd tg) = gp otf"
    by (auto simp: tg_def otfa_def write_to_output_def)
  have sel: "(if train_structure otfa = None
              then ebind (draw env (nat_atoms (struct otfa)) otfa) (\<lambda>(k, otf'). Inr (Some k, otf'))
              else Inr (target, otfa)) = Inr tg"
    using assms(3) by (auto simp: tg_def draw_def otfa_def write_to_output_def)
  obtain p where p: "punchout env (struct otf) (fst tg) d = Inr p" "wf_struc p"
    using assms(1) unfolding cooperative_def by blast
  from train_on_succeeds[OF assms(1) p(2), of "qe_input otf" "gp otf"] obtain frcs rows g g' where
    t: "run_espresso env (qe_input otf) p = Inr frcs"
    "collect (\<lambda>n.
               ebind (get (species p) n) (\<lambda>sp.
               ebind (get (positions p) n) (\<lambda>pos.
               ebind (get frcs n) (\<lambda>frc. Inr (sp, pos, frc)))))
             [0 ..< nat_atoms p] = Inr rows"
    "gp_update_db env (gp otf) p frcs = Inr g" "gp_train env g = Inr g'"
    by blast
  have pd: "punchout_d otfa = Some d" using Some by (simp add: otfa_def write_to_output_def)
  show ?thesis
    unfolding run_and_train_def Let_def otfa_def[symmetric] pd option.case sel
    using p(1) t st by (cases tg) (simp add: write_to_output_def)
qed

text \<open>
  The verdict of the policy on the predicted uncertainties.
\<close>

lemma stds_uncertain:
  assumes "length (stds s) = N" "0 < N" "\<forall>n<N. row_ok (\<lambda>f d. fge d threshold) s n"
  shows "is_std_in_bound s = Inr (False, [0 ..< N])"
proof -
  have ne: "stds s \<noteq> []" using assms(1,2) by auto
  have row: "(\<forall>c\<in>set (comps (stds s ! i)). \<not> is_nan c) \<and>
             (\<exists>c\<in>set (comps (stds s ! i)). fge c threshold)" if "i < N" for i
    using assms(3) that fge_not_nan unfolding row_ok_def comps_def by fastforce
  have "\<exists>e\<in>set (entries (stds s)). fge e threshold"
    using row[OF assms(2)] row_in_entries[of 0 "stds s"] assms(1,2) by auto
  moreover have "[i \<leftarrow> [0 ..< length (stds s)].
                  (\<forall>c\<in>set (comps (stds s ! i)). \<not> is_nan c) \<and>
                  (\<exists>c\<in>set (comps (stds s ! i)). fge c threshold)] = [0 ..< N]"
    using row assms(1) by (auto intro!: filter_True)
  ultimately show ?thesis
    using is_std_in_bound_char[OF ne] by simp
qed


lemma predict_on_structure_ok:
  assumes "\<forall>g c n i. \<exists>f v. gp_predict env g c n i = Inr (f, v) \<and> Q f (fsqrt (fabs v))"
    "wf_struc (struct otf)"
  shows "\<exists>s'. predict_on_structure env otf = Inr (otf\<lparr>struct := s'\<rparr>) \<and>
     same_atoms s' (struct otf) \<and> wf_struc s' \<and>
     (\<forall>n<nat_atoms (struct otf). row_ok Q s' n)"
proof -
  let ?s = "struct otf"
  have len: "length (forces ?s) = nat_atoms ?s" "length (stds ?s) = nat_atoms ?s"
    using assms(2) by (auto simp: wf_struc_def)
  from predict_atoms_ok[of env "gp otf" Q "[0 ..< nat_atoms ?s]" ?s] assms(1) len
  obtain s' where s': "predict_atoms env (gp otf) [0 ..< nat_atoms ?s] ?s = Inr s'"
    "\<forall>n\<in>set [0 ..< nat_atoms ?s]. row_ok Q s' n"
    by auto
  have sa: "same_atoms s' ?s" using predict_atoms_same[OF s'(1)] .
  show ?thesis
    using s' sa wf_same_atoms[OF assms(2) sa]
    by (auto simp: predict_on_structure_def)
qed

text \<open>
  One pass through the loop body: a correction when the surrogate is always uncertain, and
  the two ways a pass can complete.
\<close>

lemma correct_step:
  assumes au: "always_uncertain env" and coop: "cooperative env" and ro: "runs_on otf"
  shows "\<exists>otf' frows rows. loop_body env otf = Inr otf' \<and> curr_step otf' = curr_step otf \<and>
     Nsteps otf' = Nsteps otf \<and> same_atoms (struct otf') (struct otf) \<and> runs_on otf' \<and>
     out_file otf' = out_file otf @ [Frame (curr_step otf) frows] @ train_records rows"
proof -
  let ?N = "nat_atoms (struct otf)"
  have wf: "wf_struc (struct otf)" and N: "0 < ?N" using ro by (auto simp: runs_on_def)
  have unc: "\<forall>g c n i. \<exists>f v. gp_predict env g c n i = Inr (f, v) \<and>
                  fge (fsqrt (fabs v)) threshold"
    using au by (simp add: always_uncertain_def)
  from predict_on_structure_ok[of env "\<lambda>f d. fge d threshold" otf, OF unc wf] obtain s' where
    s': "predict_on_structure env otf = Inr (otf\<lparr>struct := s'\<rparr>)" "same_atoms s' (struct otf)"
    "wf_struc s'" "\<forall>n<?N. row_ok (\<lambda>f d. fge d threshold) s' n"
    by blast
  have len: "length (stds s') = ?N" "nat_atoms s' = ?N"
    using s'(2) wf by (auto simp: same_atoms_def wf_struc_def)
  have bound: "is_std_in_bound s' = Inr (False, [0 ..< ?N])"
    using stds_uncertain[OF len(1) N s'(4)] .
  let ?otf2 = "otf\<lparr>struct := s',
                   out_file := out_file otf @ [Frame (curr_step otf) (frame_rows s')]\<rparr>"
  have wc: "write_config (otf\<lparr>struct := s'\<rparr>) = Inr ?otf2"
    using write_config_wf[of "otf\<lparr>struct := s'\<rparr>"] s'(3) by simp
  define otf3 where
    "otf3 = (if truthy (punchout_d otf) then ?otf2\<lparr>rng := Suc (rng otf)\<rparr> else ?otf2)"
  define tg where
    "tg = (if truthy (punchout_d otf)
           then Some ([0 ..< ?N] ! (random_draw env (rng otf) ?N mod ?N)) else None)"
  have o3: "struct otf3 = s'" "curr_step otf3 = curr_step otf" "Nsteps otf3 = Nsteps otf"
    "out_file otf3 = out_file otf @ [Frame (curr_step otf) (frame_rows s')]"
    by (auto simp: otf3_def)
  have "wf_struc (struct otf3)" "0 < nat_atoms (struct otf3)"
    using o3(1) s'(3) len(2) N by auto
  from run_and_train_succeeds[OF coop this, of tg] obtain otf' where
    rt: "run_and_train env tg otf3 = Inr otf'" by blast
  from run_and_train_frame[OF rt] obtain rows where fr:
    "struct otf' = struct otf3" "curr_step otf' = curr_step otf3" "Nsteps otf' = Nsteps otf3"
    "out_file otf' = out_file otf3 @ train_records rows"
    by blast
  have lb: "loop_body env otf = Inr otf'"
  proof (cases "truthy (punchout_d otf)")
    case True
    then have "run_and_train env (Some ([0 ..< ?N] ! (random_draw env (rng otf) ?N mod ?N)))
        (?otf2\<lparr>rng := Suc (rng otf)\<rparr>) = Inr otf'"
      using rt by (simp add: otf3_def tg_def)
    then show ?thesis
      using True N by (simp add: loop_body_def s'(1) bound wc draw_def del: upt.simps)
  next
    case False
    then have "run_and_train env None ?otf2 = Inr otf'"
      using rt by (simp add: otf3_def tg_def)
    then show ?thesis
      using False by (simp add: loop_body_def s'(1) bound wc del: upt.simps)
  qed
  show ?thesis
    using lb fr o3 s'(2,3) len(2) N
    by (auto simp: runs_on_def)
qed

lemma loop_body_cases:
  assumes "loop_body env otf = Inr otf'"
  shows "\<exists>otf1 b P. predict_on_structure env otf = Inr otf1 \<and>
     is_std_in_bound (struct otf1) = Inr (b, P) \<and> Nsteps otf' = Nsteps otf \<and>
     (if b
      then curr_step otf' = curr_step otf + 1 \<and>
           update_positions (dt otf) (struct otf1) = Inr (struct otf') \<and>
           (\<exists>frows. out_file otf' = out_file otf @ [Frame (curr_step otf) frows])
      else curr_step otf' = curr_step otf \<and> struct otf' = struct otf1 \<and>
           (\<exists>frows rows. out_file otf' =
              out_file otf @ [Frame (curr_step otf) frows] @ train_records rows))"
proof -
  from assms obtain otf1 b P where
    p: "predict_on_structure env otf = Inr otf1" "is_std_in_bound (struct otf1) = Inr (b, P)"
    and rest: "(if \<not> b then
         ebind (write_config otf1) (\<lambda>otf2.
         ebind (if truthy (punchout_d otf2)
                then ebind (draw env (length P) otf2) (\<lambda>(k, otf'). Inr (Some (P ! k), otf'))
                else Inr (None, otf2))
           (\<lambda>(target_atom, otf3). run_and_train env target_atom otf3))
       else
         ebind (write_config otf1) (\<lambda>otf2.
         ebind (update_positions (dt otf2) (struct otf2)) (\<lambda>s.
           Inr (otf2\<lparr>struct := s, curr_step := curr_step otf2 + 1\<rparr>)))) = Inr otf'"
    unfolding loop_body_def by (auto simp: ebind_eq_Inr)
  have o1: "otf1 = otf\<lparr>struct := struct otf1\<rparr>"
    using predict_on_structure_same[OF p(1)] by simp
  then have f1: "curr_step otf1 = curr_step otf" "Nsteps otf1 = Nsteps otf"
    "out_file otf1 = out_file otf" "dt otf1 = dt otf"
    by (metis otf.select_convs otf.surjective otf.update_convs(7))+
  show ?thesis
  proof (cases b)
    case True
    with rest obtain otf2 s where
      w: "write_config otf1 = Inr otf2" "update_positions (dt otf2) (struct otf2) = Inr s"
      "otf' = otf2\<lparr>struct := s, curr_step := curr_step otf2 + 1\<rparr>"
      by (auto simp: ebind_eq_Inr)
    from write_config_result[OF w(1)] obtain frows where
      "otf2 = otf1\<lparr>out_file := out_file otf1 @ [Frame (curr_step otf1) frows]\<rparr>" by blast
    then show ?thesis
      using True p w f1 by auto
  next
    case False
    with rest obtain otf2 tg otf3 where
      w: "write_config otf1 = Inr otf2"
      "(if truthy (punchout_d otf2)
        then ebind (draw env (length P) otf2) (\<lambda>(k, otf'). Inr (Some (P ! k), otf'))
        else Inr (None, otf2)) = Inr (tg, otf3)"
      "run_and_train env tg otf3 = Inr otf'"
      by (auto simp: ebind_eq_Inr)
    from write_config_result[OF w(1)] obtain frows where
      o2: "otf2 = otf1\<lparr>out_file := out_file otf1 @ [Frame (curr_step otf1) frows]\<rparr>" by blast
    have o3: "struct otf3 = struct otf2" "curr_step otf3 = curr_step otf2"
      "Nsteps otf3 = Nsteps otf2" "out_file otf3 = out_file otf2"
      using w(2) by (auto simp: draw_def ebind_eq_Inr split: if_splits)
    from run_and_train_frame[OF w(3)] obtain rows where
      "struct otf' = struct otf3" "curr_step otf' = curr_step otf3" "Nsteps otf' = Nsteps otf3"
      "out_file otf' = out_file otf3 @ train_records rows"
      by blast
    then show ?thesis
      using False p o2 o3 f1 by auto
  qed
qed

text \<open>
  Iterated passes with a surrogate that is always uncertain: the loop never completes.
\<close>

lemma oracle_queries_append [simp]:
  "oracle_queries (xs @ ys) = oracle_queries xs + oracle_queries ys"
  by (simp add: oracle_queries_def)

lemma oracle_queries_train [simp]: "oracle_queries (train_records rows) = 1"
  by (simp add: oracle_queries_def train_records_def)

lemma oracle_queries_frame [simp]: "oracle_queries [Frame k rows] = 0"
  by (simp add: oracle_queries_def)

lemma oracle_queries_Cons_frame [simp]:
  "oracle_queries (Frame k rows # xs) = oracle_queries xs"
  by (simp add: oracle_queries_def)

lemma iterate_correct:
  assumes "always_uncertain env" "cooperative env" "runs_on otf"
  shows "\<exists>otf'. iterate_body k env otf = Inr otf' \<and> curr_step otf' = curr_step otf \<and>
     Nsteps otf' = Nsteps otf \<and> same_atoms (struct otf') (struct otf) \<and> runs_on otf' \<and>
     oracle_queries (out_file otf') = oracle_queries (out_file otf) + k"
  using assms(3)
proof (induction k arbitrary: otf)
  case 0
  then show ?case by simp
next
  case (Suc k)
  from correct_step[OF assms(1,2) Suc.prems] obtain otf1 frows rows where o1:
    "loop_body env otf = Inr otf1" "curr_step otf1 = curr_step otf" "Nsteps otf1 = Nsteps otf"
    "same_atoms (struct otf1) (struct otf)" "runs_on otf1"
    "out_file otf1 = out_file otf @ [Frame (curr_step otf) frows] @ train_records rows"
    by blast
  from Suc.IH[OF o1(5)] obtain otf' where o':
    "iterate_body k env otf1 = Inr otf'" "curr_step otf' = curr_step otf1"
    "Nsteps otf' = Nsteps otf1" "same_atoms (struct otf') (struct otf1)" "runs_on otf'"
    "oracle_queries (out_file otf') = oracle_queries (out_file otf1) + k"
    by blast
  show ?case
    using o1 o' same_atoms_trans by (auto simp: o1(6))
qed

lemma run_loop_diverges_aux:
  assumes "run_loop env otf = Some y"
  shows "\<not> (always_uncertain env \<and> cooperative env \<and> runs_on otf \<and>
            curr_step otf < Nsteps otf)"
proof (rule run_loop.raw_induct[where P = "\<lambda>env otf y.
    \<not> (always_uncertain env \<and> cooperative env \<and> runs_on otf \<and> curr_step otf < Nsteps otf)",
    OF _ assms])
  fix f :: "'a collab \<Rightarrow> 'a otf \<Rightarrow> (py_error + 'a otf) option"
  fix env otf y
  assume IH: "\<And>env otf y. f env otf = Some y \<Longrightarrow>
     \<not> (always_uncertain env \<and> cooperative env \<and> runs_on otf \<and> curr_step otf < Nsteps otf)"
  assume eq: "(if curr_step otf < Nsteps otf
      then case loop_body env otf of Inl e \<Rightarrow> Some (Inl e) | Inr otf' \<Rightarrow> f env otf'
      else Some (Inr otf)) = Some y"
  show "\<not> (always_uncertain env \<and> cooperative env \<and> runs_on otf \<and>
            curr_step otf < Nsteps otf)"
  proof
    assume h: "always_uncertain env \<and> cooperative env \<and> runs_on otf \<and>
               curr_step otf < Nsteps otf"
    from correct_step[of env otf] h obtain otf1 where o1:
      "loop_body env otf = Inr otf1" "curr_step otf1 = curr_step otf" "Nsteps otf1 = Nsteps otf"
      "runs_on otf1"
      by blast
    have "f env otf1 = Some y"
      using eq h o1(1) by simp
    from IH[OF this] show False using h o1 by simp
  qed
qed

lemma run_loop_diverges:
  assumes "always_uncertain env" "cooperative env" "runs_on otf" "curr_step otf < Nsteps otf"
  shows "run_loop env otf = None"
  using run_loop_diverges_aux[of env otf] assms by (cases "run_loop env otf") auto

lemma uncertain_pass:
  assumes "always_uncertain env" "runs_on otf" "loop_body env otf = Inr otf'"
  shows "curr_step otf' = curr_step otf \<and> Nsteps otf' = Nsteps otf \<and>
     same_atoms (struct otf') (struct otf) \<and> runs_on otf' \<and>
     (\<exists>frows rows. out_file otf' =
        out_file otf @ [Frame (curr_step otf) frows] @ train_records rows)"
proof -
  let ?N = "nat_atoms (struct otf)"
  have wf: "wf_struc (struct otf)" and N: "0 < ?N" using assms(2) by (auto simp: runs_on_def)
  have unc: "\<forall>g c n i. \<exists>f v. gp_predict env g c n i = Inr (f, v) \<and>
                  fge (fsqrt (fabs v)) threshold"
    using assms(1) by (simp add: always_uncertain_def)
  from predict_on_structure_ok[of env "\<lambda>f d. fge d threshold" otf, OF unc wf] obtain s' where
    s': "predict_on_structure env otf = Inr (otf\<lparr>struct := s'\<rparr>)" "same_atoms s' (struct otf)"
    "wf_struc s'" "\<forall>n<?N. row_ok (\<lambda>f d. fge d threshold) s' n"
    by blast
  have len: "length (stds s') = ?N" "nat_atoms s' = ?N"
    using s'(2) wf by (auto simp: same_atoms_def wf_struc_def)
  have bound: "is_std_in_bound s' = Inr (False, [0 ..< ?N])"
    using stds_uncertain[OF len(1) N s'(4)] .
  from loop_body_cases[OF assms(3)] obtain otf1 b P where c:
    "predict_on_structure env otf = Inr otf1" "is_std_in_bound (struct otf1) = Inr (b, P)"
    "Nsteps otf' = Nsteps otf"
    "if b
      then curr_step otf' = curr_step otf + 1 \<and>
           update_positions (dt otf) (struct otf1) = Inr (struct otf') \<and>
           (\<exists>frows. out_file otf' = out_file otf @ [Frame (curr_step otf) frows])
      else curr_step otf' = curr_step otf \<and> struct otf' = struct otf1 \<and>
           (\<exists>frows rows. out_file otf' =
              out_file otf @ [Frame (curr_step otf) frows] @ train_records rows)"
    by blast
  have "otf1 = otf\<lparr>struct := s'\<rparr>" using c(1) s'(1) by simp
  then have s1: "struct otf1 = s'" by simp
  have nb: "\<not> b" using c(2) bound unfolding s1 by simp
  then have r: "curr_step otf' = curr_step otf" "struct otf' = s'"
    "\<exists>frows rows. out_file otf' =
        out_file otf @ [Frame (curr_step otf) frows] @ train_records rows"
    using c(4) s1 by simp_all
  show ?thesis
    using r c(3) s'(2,3) len(2) N by (simp add: runs_on_def)
qed

lemma iterate_uncertain:
  assumes "always_uncertain env" "runs_on otf" "iterate_body k env otf = Inr otf'"
  shows "curr_step otf' = curr_step otf \<and> same_atoms (struct otf') (struct otf) \<and>
     oracle_queries (out_file otf') = oracle_queries (out_file otf) + k"
  using assms(2,3)
proof (induction k arbitrary: otf)
  case 0
  then show ?case by simp
next
  case (Suc k)
  from Suc.prems(2) obtain otf1 where o1:
    "loop_body env otf = Inr otf1" "iterate_body k env otf1 = Inr otf'"
    by (auto simp: ebind_eq_Inr)
  from uncertain_pass[OF assms(1) Suc.prems(1) o1(1)] obtain frows rows where p:
    "curr_step otf1 = curr_step otf" "same_atoms (struct otf1) (struct otf)" "runs_on otf1"
    "out_file otf1 = out_file otf @ [Frame (curr_step otf) frows] @ train_records rows"
    by blast
  from Suc.IH[OF p(3) o1(2)] have
    "curr_step otf' = curr_step otf1" "same_atoms (struct otf') (struct otf1)"
    "oracle_queries (out_file otf') = oracle_queries (out_file otf1) + k"
    by simp_all
  then show ?case
    using p same_atoms_trans by (auto simp: p(4))
qed

lemma run_loop_never_completes_aux:
  assumes "run_loop env otf = Some y"
  shows "always_uncertain env \<and> runs_on otf \<and> curr_step otf < Nsteps otf \<longrightarrow>
           (\<exists>e. y = Inl e)"
proof (rule run_loop.raw_induct[where P = "\<lambda>env otf y.
    always_uncertain env \<and> runs_on otf \<and> curr_step otf < Nsteps otf \<longrightarrow> (\<exists>e. y = Inl e)",
    OF _ assms])
  fix f :: "'a collab \<Rightarrow> 'a otf \<Rightarrow> (py_error + 'a otf) option"
  fix env otf y
  assume IH: "\<And>env otf y. f env otf = Some y \<Longrightarrow>
     always_uncertain env \<and> runs_on otf \<and> curr_step otf < Nsteps otf \<longrightarrow> (\<exists>e. y = Inl e)"
  assume eq: "(if curr_step otf < Nsteps otf
      then case loop_body env otf of Inl e \<Rightarrow> Some (Inl e) | Inr otf' \<Rightarrow> f env otf'
      else Some (Inr otf)) = Some y"
  show "always_uncertain env \<and> runs_on otf \<and> curr_step otf < Nsteps otf \<longrightarrow>
          (\<exists>e. y = Inl e)"
  proof
    assume h: "always_uncertain env \<and> runs_on otf \<and> curr_step otf < Nsteps otf"
    show "\<exists>e. y = Inl e"
    proof (cases "loop_body env otf")
      case (Inl e)
      then have "Some (Inl e) = Some y" using eq h by simp
      then have "y = Inl e" by simp
      then show ?thesis by (rule exI)
    next
      case (Inr otf1)
      from uncertain_pass[OF _ _ Inr] h have p:
        "curr_step otf1 = curr_step otf" "Nsteps otf1 = Nsteps otf" "runs_on otf1"
        by simp_all
      have "f env otf1 = Some y" using eq h Inr by simp
      from IH[OF this] show ?thesis using h p by simp
    qed
  qed
qed

lemma run_loop_never_completes:
  assumes "always_uncertain env" "runs_on otf" "curr_step otf < Nsteps otf"
  shows "run_loop env otf \<noteq> Some (Inr otfF)"
  using run_loop_never_completes_aux[of env otf "Inr otfF"] assms by auto


lemma cooperative_doubtful: "cooperative doubtful_env"
  by (simp add: cooperative_def doubtful_env_def quiet_env_def wf_struc_def atoms_example_def)

lemma always_uncertain_doubtful: "always_uncertain doubtful_env"
  by (simp add: always_uncertain_def doubtful_env_def threshold_def)


lemma runs_on_example: "runs_on example_otf"
  by (simp add: runs_on_def example_otf_def wf_struc_def atoms_example_def)

text \<open>
  Claim C3. Whenever a pass through the loop body completes, the policy's verdict on the
  predicted structure decides the step counter: on \<open>False\<close> (a correction) the counter, the
  positions and the previous positions are as before, across the frame record, the oracle
  query, the update of the training set and the retraining, whose records are appended to
  the output, and the loop goes on with the next prediction; on \<open>True\<close> (an integration) the
  counter grows by one. So the counter changes only on an integration.
\<close>

theorem correction_keeps_curr_step:
  assumes "loop_body env otf = Inr otf'"
  shows "\<exists>otf1 b P. predict_on_structure env otf = Inr otf1 \<and>
     is_std_in_bound (struct otf1) = Inr (b, P) \<and>
     (\<not> b \<longrightarrow>
        curr_step otf' = curr_step otf \<and>
        positions (struct otf') = positions (struct otf) \<and>
        prev_positions (struct otf') = prev_positions (struct otf) \<and>
        (\<exists>frows rows. out_file otf' =
           out_file otf @ [Frame (curr_step otf) frows] @ train_records rows) \<and>
        (curr_step otf < Nsteps otf \<longrightarrow>
           run_loop env otf =
             (case loop_body env otf' of
                Inl e \<Rightarrow> Some (Inl e)
              | Inr otf'' \<Rightarrow> run_loop env otf''))) \<and>
     (b \<longrightarrow> curr_step otf' = curr_step otf + 1) \<and>
     (curr_step otf' \<noteq> curr_step otf \<longrightarrow> b)"
proof -
  from loop_body_cases[OF assms] obtain otf1 b P where c:
    "predict_on_structure env otf = Inr otf1" "is_std_in_bound (struct otf1) = Inr (b, P)"
    "Nsteps otf' = Nsteps otf"
    "if b
      then curr_step otf' = curr_step otf + 1 \<and>
           update_positions (dt otf) (struct otf1) = Inr (struct otf') \<and>
           (\<exists>frows. out_file otf' = out_file otf @ [Frame (curr_step otf) frows])
      else curr_step otf' = curr_step otf \<and> struct otf' = struct otf1 \<and>
           (\<exists>frows rows. out_file otf' =
              out_file otf @ [Frame (curr_step otf) frows] @ train_records rows)"
    by blast
  have sa: "same_atoms (struct otf1) (struct otf)"
    using predict_on_structure_same[OF c(1)] by simp
  have next_pass: "run_loop env otf =
      (case loop_body env otf' of Inl e \<Rightarrow> Some (Inl e) | Inr otf'' \<Rightarrow> run_loop env otf'')"
    if "\<not> b" "curr_step otf < Nsteps otf"
  proof -
    have "run_loop env otf = run_loop env otf'"
      using that(2) assms by (subst run_loop.simps) simp
    also have "\<dots> = (case loop_body env otf' of
        Inl e \<Rightarrow> Some (Inl e) | Inr otf'' \<Rightarrow> run_loop env otf'')"
      using that c(3,4) by (subst run_loop.simps) simp
    finally show ?thesis .
  qed
  show ?thesis
  proof (cases b)
    case True
    then show ?thesis
      using c by (intro exI[of _ otf1] exI[of _ b] exI[of _ P]) simp
  next
    case False
    then have "curr_step otf' = curr_step otf" "struct otf' = struct otf1"
      "\<exists>frows rows. out_file otf' =
         out_file otf @ [Frame (curr_step otf) frows] @ train_records rows"
      using c(4) by simp_all
    then show ?thesis
      using c(1,2) sa next_pass False
      by (intro exI[of _ otf1] exI[of _ b] exI[of _ P]) (simp add: same_atoms_def)
  qed
qed

theorem correction_keeps_curr_step_witness:
  "(\<exists>otf' otf1 P. loop_body doubtful_env example_otf = Inr otf' \<and>
     predict_on_structure doubtful_env example_otf = Inr otf1 \<and>
     is_std_in_bound (struct otf1) = Inr (False, P) \<and> curr_step otf' = 0 \<and>
     positions (struct otf') = [(Fin 0, Fin 0, Fin 0), (Fin 1, Fin 0, Fin 0)]) \<and>
   (\<exists>otf2. iterate_body 2 doubtful_env example_otf = Inr otf2 \<and> curr_step otf2 = 0 \<and>
      oracle_queries (out_file otf2) = 2)"
proof -
  have two: "\<exists>otf2. iterate_body 2 doubtful_env example_otf = Inr otf2 \<and> curr_step otf2 = 0 \<and>
      oracle_queries (out_file otf2) = 2"
    using iterate_correct[OF always_uncertain_doubtful cooperative_doubtful runs_on_example, of 2]
    by (auto simp: example_otf_def oracle_queries_def)
  from correct_step[OF always_uncertain_doubtful cooperative_doubtful runs_on_example]
  obtain otf' where o: "loop_body doubtful_env example_otf = Inr otf'"
    "curr_step otf' = curr_step example_otf"
    by blast
  from correction_keeps_curr_step[OF o(1)] obtain otf1 b P where c:
    "predict_on_structure doubtful_env example_otf = Inr otf1"
    "is_std_in_bound (struct otf1) = Inr (b, P)"
    "\<not> b \<longrightarrow> positions (struct otf') = positions (struct example_otf)"
    "b \<longrightarrow> curr_step otf' = curr_step example_otf + 1"
    by blast
  have nb: "\<not> b" using c(4) o(2) by auto
  have "curr_step otf' = 0" using o(2) by (simp add: example_otf_def)
  moreover have "positions (struct otf') = [(Fin 0, Fin 0, Fin 0), (Fin 1, Fin 0, Fin 0)]"
    using c(3) nb by (simp add: example_otf_def atoms_example_def)
  ultimately have "\<exists>otf' otf1 P. loop_body doubtful_env example_otf = Inr otf' \<and>
     predict_on_structure doubtful_env example_otf = Inr otf1 \<and>
     is_std_in_bound (struct otf1) = Inr (False, P) \<and> curr_step otf' = 0 \<and>
     positions (struct otf') = [(Fin 0, Fin 0, Fin 0), (Fin 1, Fin 0, Fin 0)]"
    using o(1) c(1,2) nb by auto
  then show ?thesis using two by blast
qed

text \<open>
  Claim C7. With a surrogate that always reports an uncertainty at or above the threshold,
  on a well-formed structure with at least one atom and the step counter at \<open>0\<close>: every state
  reached by the bootstrap and any number \<open>k\<close> of passes through the loop body has the step
  counter still at \<open>0\<close>, the positions untouched and \<open>k + 1\<close> oracle queries more than at the
  start, so each pass is a correction and none an integration; with at least one step to
  make, \<^verbatim>\<open>run\<close> never completes. No ceiling ends the corrections: when the collaborators
  never raise, every number of passes is reached and \<^verbatim>\<open>run\<close> does not return.
\<close>

theorem uncertain_surrogate_never_advances:
  assumes "always_uncertain env" "runs_on otf" "curr_step otf = 0"
  shows "(\<forall>otf1 k otf'. run_and_train env None otf = Inr otf1 \<and>
            iterate_body k env otf1 = Inr otf' \<longrightarrow>
            curr_step otf' = 0 \<and> positions (struct otf') = positions (struct otf) \<and>
            prev_positions (struct otf') = prev_positions (struct otf) \<and>
            oracle_queries (out_file otf') = oracle_queries (out_file otf) + 1 + k) \<and>
     (0 < Nsteps otf \<longrightarrow> (\<forall>otfF. run env otf \<noteq> Some (Inr otfF))) \<and>
     (cooperative env \<longrightarrow>
        (\<exists>otf1. run_and_train env None otf = Inr otf1 \<and>
           (\<forall>k. \<exists>otf'. iterate_body k env otf1 = Inr otf')) \<and>
        (0 < Nsteps otf \<longrightarrow> run env otf = None))"
proof (intro conjI allI impI)
  fix otf1 k otf'
  assume a: "run_and_train env None otf = Inr otf1 \<and> iterate_body k env otf1 = Inr otf'"
  from run_and_train_frame[of env None otf otf1] a obtain rows where f:
    "struct otf1 = struct otf" "curr_step otf1 = curr_step otf"
    "out_file otf1 = out_file otf @ train_records rows"
    by blast
  have ro: "runs_on otf1" using assms(2) f(1) by (simp add: runs_on_def)
  have it: "curr_step otf' = curr_step otf1" "same_atoms (struct otf') (struct otf1)"
    "oracle_queries (out_file otf') = oracle_queries (out_file otf1) + k"
    using iterate_uncertain[OF assms(1) ro, of k otf'] a by simp_all
  show "curr_step otf' = 0" using it(1) f(2) assms(3) by simp
  show "positions (struct otf') = positions (struct otf)"
    using it(2) f(1) by (simp add: same_atoms_def)
  show "prev_positions (struct otf') = prev_positions (struct otf)"
    using it(2) f(1) by (simp add: same_atoms_def)
  show "oracle_queries (out_file otf') = oracle_queries (out_file otf) + 1 + k"
    using it(3) by (simp add: f(3))
next
  fix otfF
  assume n: "0 < Nsteps otf"
  show "run env otf \<noteq> Some (Inr otfF)"
  proof (cases "run_and_train env None otf")
    case (Inl e)
    then show ?thesis by (simp add: run_def)
  next
    case (Inr otf1)
    from run_and_train_frame[OF Inr] have f:
      "struct otf1 = struct otf" "curr_step otf1 = curr_step otf" "Nsteps otf1 = Nsteps otf"
      by simp_all
    have ro: "runs_on otf1" using assms(2) f(1) by (simp add: runs_on_def)
    have "run_loop env otf1 \<noteq> Some (Inr otfF)"
      using run_loop_never_completes[OF assms(1) ro] n f(2,3) assms(3) by simp
    then show ?thesis using Inr by (simp add: run_def)
  qed
next
  assume coop: "cooperative env"
  have wf: "wf_struc (struct otf)" "0 < nat_atoms (struct otf)"
    using assms(2) by (auto simp: runs_on_def)
  from run_and_train_succeeds[OF coop wf, of None] obtain otf1 where
    b: "run_and_train env None otf = Inr otf1" by blast
  from run_and_train_frame[OF b] have f:
    "struct otf1 = struct otf" "curr_step otf1 = curr_step otf" "Nsteps otf1 = Nsteps otf"
    by simp_all
  have ro: "runs_on otf1" using assms(2) f(1) by (simp add: runs_on_def)
  have "\<exists>otf'. iterate_body k env otf1 = Inr otf'" for k
    using iterate_correct[OF assms(1) coop ro, of k] by blast
  then show "\<exists>otf1. run_and_train env None otf = Inr otf1 \<and>
      (\<forall>k. \<exists>otf'. iterate_body k env otf1 = Inr otf')"
    using b by blast
  show "run env otf = None" if "0 < Nsteps otf"
    using run_loop_diverges[OF assms(1) coop ro] that f(2,3) assms(3) b
    by (simp add: run_def)
qed

theorem uncertain_surrogate_never_advances_witness:
  "always_uncertain doubtful_env \<and> cooperative doubtful_env \<and> runs_on example_otf \<and>
   curr_step example_otf = 0 \<and> run doubtful_env example_otf = None \<and>
   (\<exists>otf1 otf'. run_and_train doubtful_env None example_otf = Inr otf1 \<and>
      iterate_body 3 doubtful_env otf1 = Inr otf' \<and> curr_step otf' = 0 \<and>
      oracle_queries (out_file otf') = 4)"
proof -
  have c: "curr_step example_otf = 0" and n: "0 < Nsteps example_otf"
    and q: "oracle_queries (out_file example_otf) = 0"
    by (simp_all add: example_otf_def oracle_queries_def)
  note t = uncertain_surrogate_never_advances[OF always_uncertain_doubtful runs_on_example c]
  from t cooperative_doubtful n obtain otf1 where o:
    "run_and_train doubtful_env None example_otf = Inr otf1"
    "\<forall>k. \<exists>otf'. iterate_body k doubtful_env otf1 = Inr otf'"
    "run doubtful_env example_otf = None"
    by blast
  from o(2) obtain otf' where i: "iterate_body 3 doubtful_env otf1 = Inr otf'"
    by blast
  from t o(1) i have "curr_step otf' = 0"
    "oracle_queries (out_file otf') = oracle_queries (out_file example_otf) + 1 + 3"
    by blast+
  then show ?thesis
    using always_uncertain_doubtful cooperative_doubtful runs_on_example c q o(1,3) i
    by auto
qed



lemma rest_struct_idem [simp]: "rest_struct (rest_struct s) = rest_struct s"
  by (simp add: rest_struct_def)

lemma rest_struct_positions [simp]: "positions (rest_struct s) = positions s"
  by (simp add: rest_struct_def)




lemma frames_no_queries [simp]:
  "oracle_queries (map (\<lambda>j. Frame (c j) (r j)) js) = 0"
  by (induction js) (simp_all add: oracle_queries_def)




end
